theory Spec2Isabelle
  imports Complex_Main
begin

section \<open>Capsule collider: mesh builder and shape fitter\<close>

text \<open>
  This theory embeds the two host-independent functions of
  \<^verbatim>\<open>bmesh_operations/capsule_generation.py\<close>:
  \<^verbatim>\<open>create_capsule_data\<close> (the mesh builder) and
  \<^verbatim>\<open>calculate_radius_height\<close> (the shape fitter).

  Python integers are \<^typ>\<open>int\<close>. Python floats are idealised as \<^typ>\<open>real\<close>:
  rounding, infinities and NaN are not modelled. Every list write and read of the
  source is a checked operation that yields \<open>IndexError\<close> out of range, every float
  division of the builder is guarded by a \<open>ZeroDivisionError\<close> check, and every loop
  is a fold in the error monad.
\<close>

subsection \<open>Python lists, errors and loops\<close>

datatype error = ValueError | IndexError | ZeroDivisionError

definition py_index :: "'a list \<Rightarrow> int \<Rightarrow> error + nat" where
  "py_index xs i =
     (let n = int (length xs) in
      if 0 \<le> i \<and> i < n then Inr (nat i)
      else if - n \<le> i \<and> i < 0 then Inr (nat (n + i))
      else Inl IndexError)"

definition py_set :: "'a list \<Rightarrow> int \<Rightarrow> 'a \<Rightarrow> error + 'a list" where
  "py_set xs i v = (case py_index xs i of Inl e \<Rightarrow> Inl e | Inr k \<Rightarrow> Inr (xs[k := v]))"

definition py_get :: "'a list \<Rightarrow> int \<Rightarrow> error + 'a" where
  "py_get xs i = (case py_index xs i of Inl e \<Rightarrow> Inl e | Inr k \<Rightarrow> Inr (xs ! k))"

definition bind_err :: "error + 'a \<Rightarrow> ('a \<Rightarrow> error + 'b) \<Rightarrow> error + 'b" where
  "bind_err m f = (case m of Inl e \<Rightarrow> Inl e | Inr x \<Rightarrow> f x)"

text \<open>A block of statements: each one transforms the state or raises.\<close>

fun run :: "('s \<Rightarrow> error + 's) list \<Rightarrow> 's \<Rightarrow> error + 's" where
  "run [] s = Inr s"
| "run (c # cs) s = (case c s of Inl e \<Rightarrow> Inl e | Inr s' \<Rightarrow> run cs s')"

text \<open>\<^verbatim>\<open>for x in xs: body\<close>\<close>

fun for_each :: "'a list \<Rightarrow> ('a \<Rightarrow> 's \<Rightarrow> error + 's) \<Rightarrow> 's \<Rightarrow> error + 's" where
  "for_each [] body s = Inr s"
| "for_each (x # xs) body s =
     (case body x s of Inl e \<Rightarrow> Inl e | Inr s' \<Rightarrow> for_each xs body s')"

text \<open>\<^verbatim>\<open>range(a, b)\<close>: the integers from \<open>a\<close> up to \<open>b - 1\<close>, empty when \<open>b \<le> a\<close>.\<close>

definition py_range :: "int \<Rightarrow> int \<Rightarrow> int list" where
  "py_range a b = [a..b - 1]"

definition assign :: "('s \<Rightarrow> 's) \<Rightarrow> 's \<Rightarrow> error + 's" where
  "assign f s = Inr (f s)"

text \<open>The guard of a float division \<^verbatim>\<open>x / d\<close>.\<close>

definition check_div :: "real \<Rightarrow> 's \<Rightarrow> error + 's" where
  "check_div d s = (if d = 0 then Inl ZeroDivisionError else Inr s)"

subsection \<open>Builder: validated arguments and precomputed offsets\<close>

type_synonym vec3 = "real \<times> real \<times> real"
type_synonym vec2 = "real \<times> real"
type_synonym face = "int list"

record capsule_args =
  verif_rad :: real
  verif_depth :: real
  verif_rings :: int
  verif_lons :: int
  verif_lats :: int
  uv_profile :: string

text \<open>\<^verbatim>\<open># Validate arguments.\<close> (source lines 170 to 179)\<close>

definition validate :: "int \<Rightarrow> int \<Rightarrow> int \<Rightarrow> real \<Rightarrow> real \<Rightarrow> string \<Rightarrow> capsule_args" where
  "validate longitudes latitudes rings depth radius profile =
     \<lparr> verif_rad = max 0.0001 radius,
       verif_depth = max 0.0002 depth,
       verif_rings = max 0 rings,
       verif_lons = max 3 longitudes,
       verif_lats = (let v = max 2 latitudes in if v mod 2 \<noteq> 0 then v + 1 else v),
       uv_profile = profile \<rparr>"

text \<open>\<^verbatim>\<open># Preliminary calculations.\<close>\<close>

definition calc_middle :: "capsule_args \<Rightarrow> bool" where
  "calc_middle c = (verif_rings c > 0)"
definition half_lats :: "capsule_args \<Rightarrow> int" where
  "half_lats c = verif_lats c div 2"
definition half_lats_n1 :: "capsule_args \<Rightarrow> int" where
  "half_lats_n1 c = half_lats c - 1"
definition half_lats_n2 :: "capsule_args \<Rightarrow> int" where
  "half_lats_n2 c = half_lats c - 2"
definition verif_rings_p1 :: "capsule_args \<Rightarrow> int" where
  "verif_rings_p1 c = verif_rings c + 1"
definition verif_lons_p1 :: "capsule_args \<Rightarrow> int" where
  "verif_lons_p1 c = verif_lons c + 1"
definition v_lons_half_lat_n1 :: "capsule_args \<Rightarrow> int" where
  "v_lons_half_lat_n1 c = half_lats_n1 c * verif_lons c"
definition v_lons_v_sections_p1 :: "capsule_args \<Rightarrow> int" where
  "v_lons_v_sections_p1 c = verif_rings_p1 c * verif_lons c"
definition half_depth :: "capsule_args \<Rightarrow> real" where
  "half_depth c = verif_depth c * 0.5"
definition summit :: "capsule_args \<Rightarrow> real" where
  "summit c = half_depth c + verif_rad c"

text \<open>\<^verbatim>\<open># Coordinate index offsets.\<close>\<close>

definition idx_v_n_equator :: "capsule_args \<Rightarrow> int" where
  "idx_v_n_equator c = verif_lons_p1 c + verif_lons c * half_lats_n2 c"
definition idx_v_cyl :: "capsule_args \<Rightarrow> int" where
  "idx_v_cyl c = idx_v_n_equator c + verif_lons c"
definition idx_v_s_equator :: "capsule_args \<Rightarrow> int" where
  "idx_v_s_equator c =
     (if calc_middle c then idx_v_cyl c + verif_lons c * verif_rings c else idx_v_cyl c)"
definition idx_v_south :: "capsule_args \<Rightarrow> int" where
  "idx_v_south c = idx_v_s_equator c + verif_lons c"
definition idx_v_south_cap :: "capsule_args \<Rightarrow> int" where
  "idx_v_south_cap c = idx_v_south c + verif_lons c * half_lats_n2 c"
definition idx_v_south_pole :: "capsule_args \<Rightarrow> int" where
  "idx_v_south_pole c = idx_v_south_cap c + verif_lons c"

text \<open>\<^verbatim>\<open># Texture coordinate index offsets.\<close>\<close>

definition idx_vt_n_equator :: "capsule_args \<Rightarrow> int" where
  "idx_vt_n_equator c = verif_lons c + verif_lons_p1 c * half_lats_n1 c"
definition idx_vt_cyl :: "capsule_args \<Rightarrow> int" where
  "idx_vt_cyl c = idx_vt_n_equator c + verif_lons_p1 c"
definition idx_vt_s_equator :: "capsule_args \<Rightarrow> int" where
  "idx_vt_s_equator c =
     (if calc_middle c then idx_vt_cyl c + verif_lons_p1 c * verif_rings c else idx_vt_cyl c)"
definition idx_vt_s_hemi :: "capsule_args \<Rightarrow> int" where
  "idx_vt_s_hemi c = idx_vt_s_equator c + verif_lons_p1 c"
definition idx_vt_s_polar :: "capsule_args \<Rightarrow> int" where
  "idx_vt_s_polar c = idx_vt_s_hemi c + verif_lons_p1 c * half_lats_n2 c"
definition idx_vt_s_cap :: "capsule_args \<Rightarrow> int" where
  "idx_vt_s_cap c = idx_vt_s_polar c + verif_lons_p1 c"

text \<open>\<^verbatim>\<open># Normal index offsets.\<close>\<close>

definition idx_vn_south :: "capsule_args \<Rightarrow> int" where
  "idx_vn_south c = idx_v_n_equator c + verif_lons c"
definition idx_vn_south_cap :: "capsule_args \<Rightarrow> int" where
  "idx_vn_south_cap c = idx_vn_south c + verif_lons c * half_lats_n2 c"
definition idx_vn_south_pole :: "capsule_args \<Rightarrow> int" where
  "idx_vn_south_pole c = idx_vn_south_cap c + verif_lons c"

text \<open>\<^verbatim>\<open># Find index offsets for face indices.\<close>\<close>

definition idx_fs_cyl :: "capsule_args \<Rightarrow> int" where
  "idx_fs_cyl c = verif_lons c + v_lons_half_lat_n1 c"
definition idx_fs_south_equat :: "capsule_args \<Rightarrow> int" where
  "idx_fs_south_equat c = idx_fs_cyl c + v_lons_v_sections_p1 c"
definition idx_fs_south_hemi :: "capsule_args \<Rightarrow> int" where
  "idx_fs_south_hemi c = idx_fs_south_equat c + v_lons_half_lat_n1 c"

text \<open>\<^verbatim>\<open># List lengths.\<close>\<close>

definition len_vs :: "capsule_args \<Rightarrow> int" where
  "len_vs c = idx_v_south_pole c + 1"
definition len_vts :: "capsule_args \<Rightarrow> int" where
  "len_vts c = idx_vt_s_cap c + verif_lons c"
definition len_vns :: "capsule_args \<Rightarrow> int" where
  "len_vns c = idx_vn_south_pole c + verif_lons c"
definition len_indices :: "capsule_args \<Rightarrow> int" where
  "len_indices c = idx_fs_south_hemi c + verif_lons c"

text \<open>Scale factors and the UV aspect ratio (\<^verbatim>\<open>math.tau\<close> is \<open>2 * pi\<close>).\<close>

definition to_theta :: "capsule_args \<Rightarrow> real" where
  "to_theta c = 2 * pi / real_of_int (verif_lons c)"
definition to_phi :: "capsule_args \<Rightarrow> real" where
  "to_phi c = pi / real_of_int (verif_lats c)"
definition to_tex_horizontal :: "capsule_args \<Rightarrow> real" where
  "to_tex_horizontal c = 1.0 / real_of_int (verif_lons c)"
definition to_tex_vertical :: "capsule_args \<Rightarrow> real" where
  "to_tex_vertical c = 1.0 / real_of_int (half_lats c)"

definition vt_aspect_south :: "capsule_args \<Rightarrow> real" where
  "vt_aspect_south c =
     (if uv_profile c = ''ASPECT'' then verif_rad c / (verif_depth c + 2.0 * verif_rad c)
      else if uv_profile c = ''UNIFORM''
        then real_of_int (half_lats c) / real_of_int (verif_rings_p1 c + verif_lats c)
      else 1.0 / 3.0)"
definition vt_aspect_north :: "capsule_args \<Rightarrow> real" where
  "vt_aspect_north c = 1.0 - vt_aspect_south c"
definition to_fac :: "capsule_args \<Rightarrow> real" where
  "to_fac c = 1.0 / real_of_int (verif_rings_p1 c)"

text \<open>The denominator of the aspect-ratio division the selected profile performs.\<close>

definition vt_aspect_denominator :: "capsule_args \<Rightarrow> real" where
  "vt_aspect_denominator c =
     (if uv_profile c = ''ASPECT'' then verif_depth c + 2.0 * verif_rad c
      else if uv_profile c = ''UNIFORM'' then real_of_int (verif_rings_p1 c + verif_lats c)
      else 3.0)"

subsection \<open>Builder: mutable state\<close>

text \<open>
  The six output buffers (the dictionary the function returns), extended by the
  two caches and the running offsets that the loops increment.
\<close>

record mesh_data =
  vs :: "vec3 list"
  vts :: "vec2 list"
  vns :: "vec3 list"
  v_indices :: "face list"
  vt_indices :: "face list"
  vn_indices :: "face list"

record builder_state = mesh_data +
  sin_cos_theta_cache :: "vec2 list"
  s_tex_cache :: "real list"
  v_hemi_offset_north :: int
  v_hemi_offset_south :: int
  vt_hemi_offset_north :: int
  vt_hemi_offset_south :: int
  vn_hemi_offset_south :: int
  f_hemi_offset_north :: int
  f_hemi_offset_south :: int
  v_cyl_offset :: int
  vt_cyl_offset :: int
  f_cyl_offset :: int

definition set_vs :: "int \<Rightarrow> vec3 \<Rightarrow> builder_state \<Rightarrow> error + builder_state" where
  "set_vs i v st = bind_err (py_set (vs st) i v) (\<lambda>xs. Inr (st\<lparr>vs := xs\<rparr>))"
definition set_vts :: "int \<Rightarrow> vec2 \<Rightarrow> builder_state \<Rightarrow> error + builder_state" where
  "set_vts i v st = bind_err (py_set (vts st) i v) (\<lambda>xs. Inr (st\<lparr>vts := xs\<rparr>))"
definition set_vns :: "int \<Rightarrow> vec3 \<Rightarrow> builder_state \<Rightarrow> error + builder_state" where
  "set_vns i v st = bind_err (py_set (vns st) i v) (\<lambda>xs. Inr (st\<lparr>vns := xs\<rparr>))"
definition set_v_indices :: "int \<Rightarrow> face \<Rightarrow> builder_state \<Rightarrow> error + builder_state" where
  "set_v_indices i f st =
     bind_err (py_set (v_indices st) i f) (\<lambda>xs. Inr (st\<lparr>v_indices := xs\<rparr>))"
definition set_vt_indices :: "int \<Rightarrow> face \<Rightarrow> builder_state \<Rightarrow> error + builder_state" where
  "set_vt_indices i f st =
     bind_err (py_set (vt_indices st) i f) (\<lambda>xs. Inr (st\<lparr>vt_indices := xs\<rparr>))"
definition set_vn_indices :: "int \<Rightarrow> face \<Rightarrow> builder_state \<Rightarrow> error + builder_state" where
  "set_vn_indices i f st =
     bind_err (py_set (vn_indices st) i f) (\<lambda>xs. Inr (st\<lparr>vn_indices := xs\<rparr>))"
definition set_sin_cos_theta_cache ::
    "int \<Rightarrow> vec2 \<Rightarrow> builder_state \<Rightarrow> error + builder_state" where
  "set_sin_cos_theta_cache i v st =
     bind_err (py_set (sin_cos_theta_cache st) i v) (\<lambda>xs. Inr (st\<lparr>sin_cos_theta_cache := xs\<rparr>))"
definition set_s_tex_cache :: "int \<Rightarrow> real \<Rightarrow> builder_state \<Rightarrow> error + builder_state" where
  "set_s_tex_cache i v st =
     bind_err (py_set (s_tex_cache st) i v) (\<lambda>xs. Inr (st\<lparr>s_tex_cache := xs\<rparr>))"

subsection \<open>Builder: the loops\<close>

text \<open>Poles, equators and the two triangle fans (source lines 260 to 305).\<close>

definition pole_step :: "capsule_args \<Rightarrow> int \<Rightarrow> builder_state \<Rightarrow> error + builder_state" where
  "pole_step c j =
     (let j_next_vt = j + 1;
          j_next_v = j_next_vt mod verif_lons c;
          theta = real_of_int j * to_theta c;
          sin_theta = sin theta;
          cos_theta = cos theta;
          s_tex = (real_of_int j + 0.5) * to_tex_horizontal c;
          x = verif_rad c * cos_theta;
          y = verif_rad c * sin_theta
      in run [
        set_sin_cos_theta_cache j (sin_theta, cos_theta),
        set_vts j (s_tex, 1.0),
        set_vts (idx_vt_s_cap c + j) (s_tex, 0.0),
        set_vs (idx_v_n_equator c + j) (x, y, half_depth c),
        set_vs (idx_v_s_equator c + j) (x, y, - half_depth c),
        set_vns (idx_v_n_equator c + j) (cos_theta, sin_theta, 0.0),
        set_v_indices j [0, j_next_vt, 1 + j_next_v],
        set_vt_indices j [j, verif_lons c + j, verif_lons c + j_next_vt],
        set_vn_indices j [0, j_next_vt, 1 + j_next_v],
        set_v_indices (idx_fs_south_hemi c + j)
          [idx_v_south_pole c, idx_v_south_cap c + j_next_v, idx_v_south_cap c + j],
        set_vt_indices (idx_fs_south_hemi c + j)
          [idx_vt_s_cap c + j, idx_vt_s_polar c + j_next_vt, idx_vt_s_polar c + j],
        set_vn_indices (idx_fs_south_hemi c + j)
          [idx_vn_south_pole c, idx_vn_south_cap c + j_next_v, idx_vn_south_cap c + j]])"

text \<open>Equatorial texture coordinates (source lines 318 to 322).\<close>

definition equator_uv_step ::
    "capsule_args \<Rightarrow> int \<Rightarrow> builder_state \<Rightarrow> error + builder_state" where
  "equator_uv_step c j =
     (let s_tex = real_of_int j * to_tex_horizontal c
      in run [
        set_s_tex_cache j s_tex,
        set_vts (idx_vt_n_equator c + j) (s_tex, vt_aspect_north c),
        set_vts (idx_vt_s_equator c + j) (s_tex, vt_aspect_south c)])"

text \<open>Per-latitude index offsets of the hemisphere loop (source lines 357 to 379).\<close>

definition v_curr_lat_n :: "capsule_args \<Rightarrow> int \<Rightarrow> int" where
  "v_curr_lat_n c i = 1 + i * verif_lons c"
definition v_next_lat_n :: "capsule_args \<Rightarrow> int \<Rightarrow> int" where
  "v_next_lat_n c i = v_curr_lat_n c i + verif_lons c"
definition vt_curr_lat_n :: "capsule_args \<Rightarrow> int \<Rightarrow> int" where
  "vt_curr_lat_n c i = verif_lons c + i * verif_lons_p1 c"
definition vt_next_lat_n :: "capsule_args \<Rightarrow> int \<Rightarrow> int" where
  "vt_next_lat_n c i = vt_curr_lat_n c i + verif_lons_p1 c"
definition vn_curr_lat_n :: "capsule_args \<Rightarrow> int \<Rightarrow> int" where
  "vn_curr_lat_n c i = 1 + i * verif_lons c"
definition vn_next_lat_n :: "capsule_args \<Rightarrow> int \<Rightarrow> int" where
  "vn_next_lat_n c i = vn_curr_lat_n c i + verif_lons c"
definition v_curr_lat_s :: "capsule_args \<Rightarrow> int \<Rightarrow> int" where
  "v_curr_lat_s c i = idx_v_s_equator c + i * verif_lons c"
definition v_next_lat_s :: "capsule_args \<Rightarrow> int \<Rightarrow> int" where
  "v_next_lat_s c i = v_curr_lat_s c i + verif_lons c"
definition vt_curr_lat_s :: "capsule_args \<Rightarrow> int \<Rightarrow> int" where
  "vt_curr_lat_s c i = idx_vt_s_equator c + i * verif_lons_p1 c"
definition vt_next_lat_s :: "capsule_args \<Rightarrow> int \<Rightarrow> int" where
  "vt_next_lat_s c i = vt_curr_lat_s c i + verif_lons_p1 c"
definition vn_curr_lat_s :: "capsule_args \<Rightarrow> int \<Rightarrow> int" where
  "vn_curr_lat_s c i = idx_v_n_equator c + i * verif_lons c"
definition vn_next_lat_s :: "capsule_args \<Rightarrow> int \<Rightarrow> int" where
  "vn_next_lat_s c i = vn_curr_lat_s c i + verif_lons c"

text \<open>Coordinates, normals and quads of one latitude (source lines 382 to 460).\<close>

definition hemi_vertex_step ::
    "capsule_args \<Rightarrow> int \<Rightarrow> int \<Rightarrow> builder_state \<Rightarrow> error + builder_state" where
  "hemi_vertex_step c i j st =
     (let ip1 = real_of_int i + 1.0;
          phi = ip1 * to_phi c;
          sin_phi_south = sin phi;
          cos_phi_south = cos phi;
          sin_phi_north = - cos_phi_south;
          cos_phi_north = sin_phi_south;
          rho_cos_phi_north = verif_rad c * cos_phi_north;
          rho_sin_phi_north = verif_rad c * sin_phi_north;
          offset_z_north = half_depth c - rho_sin_phi_north;
          rho_cos_phi_south = verif_rad c * cos_phi_south;
          rho_sin_phi_south = verif_rad c * sin_phi_south;
          offset_z_south = - half_depth c - rho_sin_phi_south;
          j_next_vt = j + 1;
          j_next_v = j_next_vt mod verif_lons c
      in bind_err (py_get (sin_cos_theta_cache st) j) (\<lambda>(sin_theta, cos_theta).
        run [
          (\<lambda>s. set_vs (v_hemi_offset_north s)
             (rho_cos_phi_north * cos_theta, rho_cos_phi_north * sin_theta, offset_z_north) s),
          (\<lambda>s. set_vs (v_hemi_offset_south s)
             (rho_cos_phi_south * cos_theta, rho_cos_phi_south * sin_theta, offset_z_south) s),
          (\<lambda>s. set_vns (v_hemi_offset_north s)
             (cos_phi_north * cos_theta, cos_phi_north * sin_theta, - sin_phi_north) s),
          (\<lambda>s. set_vns (vn_hemi_offset_south s)
             (cos_phi_south * cos_theta, cos_phi_south * sin_theta, - sin_phi_south) s),
          assign (\<lambda>s. s\<lparr>v_hemi_offset_north := v_hemi_offset_north s + 1\<rparr>),
          assign (\<lambda>s. s\<lparr>v_hemi_offset_south := v_hemi_offset_south s + 1\<rparr>),
          assign (\<lambda>s. s\<lparr>vn_hemi_offset_south := vn_hemi_offset_south s + 1\<rparr>),
          (\<lambda>s. set_v_indices (f_hemi_offset_north s)
             [v_curr_lat_n c i + j, v_next_lat_n c i + j,
              v_next_lat_n c i + j_next_v, v_curr_lat_n c i + j_next_v] s),
          (\<lambda>s. set_vt_indices (f_hemi_offset_north s)
             [vt_curr_lat_n c i + j, vt_next_lat_n c i + j,
              vt_next_lat_n c i + j_next_vt, vt_curr_lat_n c i + j_next_vt] s),
          (\<lambda>s. set_vn_indices (f_hemi_offset_north s)
             [vn_curr_lat_n c i + j, vn_next_lat_n c i + j,
              vn_next_lat_n c i + j_next_v, vn_curr_lat_n c i + j_next_v] s),
          (\<lambda>s. set_v_indices (f_hemi_offset_south s)
             [v_curr_lat_s c i + j, v_next_lat_s c i + j,
              v_next_lat_s c i + j_next_v, v_curr_lat_s c i + j_next_v] s),
          (\<lambda>s. set_vt_indices (f_hemi_offset_south s)
             [vt_curr_lat_s c i + j, vt_next_lat_s c i + j,
              vt_next_lat_s c i + j_next_vt, vt_curr_lat_s c i + j_next_vt] s),
          (\<lambda>s. set_vn_indices (f_hemi_offset_south s)
             [vn_curr_lat_s c i + j, vn_next_lat_s c i + j,
              vn_next_lat_s c i + j_next_v, vn_curr_lat_s c i + j_next_v] s),
          assign (\<lambda>s. s\<lparr>f_hemi_offset_north := f_hemi_offset_north s + 1\<rparr>),
          assign (\<lambda>s. s\<lparr>f_hemi_offset_south := f_hemi_offset_south s + 1\<rparr>)] st))"

text \<open>Texture coordinates of one latitude (source lines 462 to 475).\<close>

definition hemi_uv_step ::
    "capsule_args \<Rightarrow> int \<Rightarrow> int \<Rightarrow> builder_state \<Rightarrow> error + builder_state" where
  "hemi_uv_step c i j st =
     (let ip1 = real_of_int i + 1.0;
          t_tex_fac = ip1 * to_tex_vertical c;
          t_tex_north = 1.0 * (1.0 - t_tex_fac) + t_tex_fac * vt_aspect_north c;
          t_tex_south = vt_aspect_south c * (1.0 - t_tex_fac) + t_tex_fac * 0.0
      in bind_err (py_get (s_tex_cache st) j) (\<lambda>s_tex.
        run [
          (\<lambda>s. set_vts (vt_hemi_offset_north s) (s_tex, t_tex_north) s),
          (\<lambda>s. set_vts (vt_hemi_offset_south s) (s_tex, t_tex_south) s),
          assign (\<lambda>s. s\<lparr>vt_hemi_offset_north := vt_hemi_offset_north s + 1\<rparr>),
          assign (\<lambda>s. s\<lparr>vt_hemi_offset_south := vt_hemi_offset_south s + 1\<rparr>)] st))"

definition hemi_step :: "capsule_args \<Rightarrow> int \<Rightarrow> builder_state \<Rightarrow> error + builder_state" where
  "hemi_step c i =
     run [
       for_each (py_range 0 (verif_lons c)) (hemi_vertex_step c i),
       for_each (py_range 0 (verif_lons_p1 c)) (hemi_uv_step c i)]"

text \<open>Rings of the cylinder in the middle (source lines 478 to 512).\<close>

definition cyl_vertex_step ::
    "capsule_args \<Rightarrow> int \<Rightarrow> int \<Rightarrow> builder_state \<Rightarrow> error + builder_state" where
  "cyl_vertex_step c m j st =
     (let fac = real_of_int m * to_fac c;
          cmpl_fac = 1.0 - fac
      in bind_err (py_get (vs st) (idx_v_n_equator c + j)) (\<lambda>(n0, n1, n2).
         bind_err (py_get (vs st) (idx_v_s_equator c + j)) (\<lambda>(s0, s1, s2).
           run [
             (\<lambda>s. set_vs (v_cyl_offset s)
                (n0 * cmpl_fac + s0 * fac, n1 * cmpl_fac + s1 * fac, n2 * cmpl_fac + s2 * fac) s),
             assign (\<lambda>s. s\<lparr>v_cyl_offset := v_cyl_offset s + 1\<rparr>)] st)))"

definition cyl_uv_step ::
    "capsule_args \<Rightarrow> int \<Rightarrow> int \<Rightarrow> builder_state \<Rightarrow> error + builder_state" where
  "cyl_uv_step c m j st =
     (let fac = real_of_int m * to_fac c;
          cmpl_fac = 1.0 - fac;
          t_tex = vt_aspect_north c * cmpl_fac + vt_aspect_south c * fac
      in bind_err (py_get (s_tex_cache st) j) (\<lambda>s_tex.
           run [
             (\<lambda>s. set_vts (vt_cyl_offset s) (s_tex, t_tex) s),
             assign (\<lambda>s. s\<lparr>vt_cyl_offset := vt_cyl_offset s + 1\<rparr>)] st))"

definition cyl_ring_step ::
    "capsule_args \<Rightarrow> int \<Rightarrow> builder_state \<Rightarrow> error + builder_state" where
  "cyl_ring_step c m =
     run [
       for_each (py_range 0 (verif_lons c)) (cyl_vertex_step c m),
       for_each (py_range 0 (verif_lons_p1 c)) (cyl_uv_step c m)]"

definition middle_rings :: "capsule_args \<Rightarrow> builder_state \<Rightarrow> error + builder_state" where
  "middle_rings c =
     (if calc_middle c then
        run [
          check_div (real_of_int (verif_rings_p1 c)),
          assign (\<lambda>s. s\<lparr>v_cyl_offset := idx_v_cyl c\<rparr>),
          assign (\<lambda>s. s\<lparr>vt_cyl_offset := idx_vt_cyl c\<rparr>),
          for_each (py_range 1 (verif_rings_p1 c)) (cyl_ring_step c)]
      else run [])"

text \<open>Cylinder indices (source lines 514 to 549).\<close>

definition cyl_face_step ::
    "capsule_args \<Rightarrow> int \<Rightarrow> int \<Rightarrow> builder_state \<Rightarrow> error + builder_state" where
  "cyl_face_step c m j =
     (let v_curr_ring = idx_v_n_equator c + m * verif_lons c;
          v_next_ring = v_curr_ring + verif_lons c;
          vt_curr_ring = idx_vt_n_equator c + m * verif_lons_p1 c;
          vt_next_ring = vt_curr_ring + verif_lons_p1 c;
          j_next_vt = j + 1;
          j_next_v = j_next_vt mod verif_lons c
      in run [
        (\<lambda>s. set_v_indices (f_cyl_offset s)
           [v_curr_ring + j, v_next_ring + j, v_next_ring + j_next_v, v_curr_ring + j_next_v] s),
        (\<lambda>s. set_vt_indices (f_cyl_offset s)
           [vt_curr_ring + j, vt_next_ring + j,
            vt_next_ring + j_next_vt, vt_curr_ring + j_next_vt] s),
        (\<lambda>s. set_vn_indices (f_cyl_offset s)
           [idx_v_n_equator c + j, idx_v_n_equator c + j,
            idx_v_n_equator c + j_next_v, idx_v_n_equator c + j_next_v] s),
        assign (\<lambda>s. s\<lparr>f_cyl_offset := f_cyl_offset s + 1\<rparr>)])"

definition cyl_faces_step ::
    "capsule_args \<Rightarrow> int \<Rightarrow> builder_state \<Rightarrow> error + builder_state" where
  "cyl_faces_step c m = for_each (py_range 0 (verif_lons c)) (cyl_face_step c m)"

subsection \<open>Builder: the function\<close>

text \<open>\<^verbatim>\<open># Allocate mesh data.\<close> A list times a non-positive integer is empty.\<close>

definition allocate :: "capsule_args \<Rightarrow> builder_state" where
  "allocate c =
     \<lparr> vs = replicate (nat (len_vs c)) (0.0, 0.0, 0.0),
       vts = replicate (nat (len_vts c)) (0.5, 0.5),
       vns = replicate (nat (len_vns c)) (0.0, 0.0, 1.0),
       v_indices = replicate (nat (len_indices c)) [0, 0, 0],
       vt_indices = replicate (nat (len_indices c)) [0, 0, 0],
       vn_indices = replicate (nat (len_indices c)) [0, 0, 0],
       sin_cos_theta_cache = [],
       s_tex_cache = [],
       v_hemi_offset_north = 0,
       v_hemi_offset_south = 0,
       vt_hemi_offset_north = 0,
       vt_hemi_offset_south = 0,
       vn_hemi_offset_south = 0,
       f_hemi_offset_north = 0,
       f_hemi_offset_south = 0,
       v_cyl_offset = 0,
       vt_cyl_offset = 0,
       f_cyl_offset = 0 \<rparr>"

definition build :: "capsule_args \<Rightarrow> builder_state \<Rightarrow> error + builder_state" where
  "build c =
     run [
       set_vs 0 (0.0, 0.0, summit c),
       set_vs (idx_v_south_pole c) (0.0, 0.0, - summit c),
       set_vns 0 (0.0, 0.0, 1.0),
       set_vns (idx_vn_south_pole c) (0.0, 0.0, - 1.0),
       check_div (real_of_int (verif_lons c)),
       check_div (real_of_int (verif_lats c)),
       check_div (real_of_int (verif_lons c)),
       check_div (real_of_int (half_lats c)),
       assign (\<lambda>s. s\<lparr>sin_cos_theta_cache := replicate (nat (verif_lons c)) (0.0, 1.0)\<rparr>),
       for_each (py_range 0 (verif_lons c)) (pole_step c),
       assign (\<lambda>s. s\<lparr>s_tex_cache := replicate (nat (verif_lons_p1 c)) 0.5\<rparr>),
       check_div (vt_aspect_denominator c),
       for_each (py_range 0 (verif_lons_p1 c)) (equator_uv_step c),
       assign (\<lambda>s. s\<lparr>v_hemi_offset_north := 1\<rparr>),
       assign (\<lambda>s. s\<lparr>v_hemi_offset_south := idx_v_south c\<rparr>),
       assign (\<lambda>s. s\<lparr>vt_hemi_offset_north := verif_lons c\<rparr>),
       assign (\<lambda>s. s\<lparr>vt_hemi_offset_south := idx_vt_s_hemi c\<rparr>),
       assign (\<lambda>s. s\<lparr>vn_hemi_offset_south := idx_vn_south c\<rparr>),
       assign (\<lambda>s. s\<lparr>f_hemi_offset_north := verif_lons c\<rparr>),
       assign (\<lambda>s. s\<lparr>f_hemi_offset_south := idx_fs_south_equat c\<rparr>),
       for_each (py_range 0 (half_lats_n1 c)) (hemi_step c),
       middle_rings c,
       assign (\<lambda>s. s\<lparr>f_cyl_offset := idx_fs_cyl c\<rparr>),
       for_each (py_range 0 (verif_rings_p1 c)) (cyl_faces_step c)]"

text \<open>
  \<^verbatim>\<open>create_capsule_data\<close>: an error, or the dictionary of the six buffers.
\<close>

definition create_capsule_data ::
    "int \<Rightarrow> int \<Rightarrow> int \<Rightarrow> real \<Rightarrow> real \<Rightarrow> string \<Rightarrow> error + mesh_data" where
  "create_capsule_data longitudes latitudes rings depth radius profile =
     (let c = validate longitudes latitudes rings depth radius profile
      in bind_err (build c (allocate c)) (\<lambda>st. Inr (mesh_data.truncate st)))"

subsection \<open>Fitter: vectors\<close>

text \<open>
  A point or a numpy row of shape \<open>(3,)\<close> is a triple. \<^verbatim>\<open>np.dot\<close>, \<^verbatim>\<open>np.cross\<close> and
  \<^verbatim>\<open>np.linalg.norm\<close> on such rows:
\<close>

fun vadd :: "vec3 \<Rightarrow> vec3 \<Rightarrow> vec3" where
  "vadd (a0, a1, a2) (b0, b1, b2) = (a0 + b0, a1 + b1, a2 + b2)"

fun vsub :: "vec3 \<Rightarrow> vec3 \<Rightarrow> vec3" where
  "vsub (a0, a1, a2) (b0, b1, b2) = (a0 - b0, a1 - b1, a2 - b2)"

fun smul :: "real \<Rightarrow> vec3 \<Rightarrow> vec3" where
  "smul k (a0, a1, a2) = (k * a0, k * a1, k * a2)"

fun vdiv :: "vec3 \<Rightarrow> real \<Rightarrow> vec3" where
  "vdiv (a0, a1, a2) k = (a0 / k, a1 / k, a2 / k)"

fun dot :: "vec3 \<Rightarrow> vec3 \<Rightarrow> real" where
  "dot (a0, a1, a2) (b0, b1, b2) = a0 * b0 + a1 * b1 + a2 * b2"

fun cross :: "vec3 \<Rightarrow> vec3 \<Rightarrow> vec3" where
  "cross (a0, a1, a2) (b0, b1, b2) = (a1 * b2 - a2 * b1, a2 * b0 - a0 * b2, a0 * b1 - a1 * b0)"

definition vnorm :: "vec3 \<Rightarrow> real" where
  "vnorm v = sqrt (dot v v)"

text \<open>\<^verbatim>\<open>np_points.mean(axis=0)\<close>\<close>

definition mean_axis0 :: "vec3 list \<Rightarrow> vec3" where
  "mean_axis0 ps = vdiv (foldr vadd ps (0, 0, 0)) (real (length ps))"

text \<open>The maximum and the minimum of a sequence raise \<open>ValueError\<close> on an empty one.\<close>

fun py_max :: "real list \<Rightarrow> error + real" where
  "py_max [] = Inl ValueError"
| "py_max (x # xs) = Inr (fold (\<lambda>y m. if m < y then y else m) xs x)"

fun py_min :: "real list \<Rightarrow> error + real" where
  "py_min [] = Inl ValueError"
| "py_min (x # xs) = Inr (fold (\<lambda>y m. if y < m then y else m) xs x)"

subsection \<open>Fitter: the function\<close>

definition distance_to_axis :: "vec3 \<Rightarrow> vec3 \<Rightarrow> vec3 \<Rightarrow> real" where
  "distance_to_axis point axis_point axis_dir =
     (let v = vsub point axis_point;
          d = vsub v (smul (dot v axis_dir) axis_dir)
      in vnorm d)"

text \<open>
  The three axes before the fallback and the normalisation (source lines 61 to 72),
  as \<open>(x_axis, y_axis, z_axis)\<close>.
\<close>

definition align_axes :: "vec3 \<Rightarrow> string \<Rightarrow> vec3 \<times> vec3 \<times> vec3" where
  "align_axes principal_axis cylinder_axis =
     (if cylinder_axis = ''X'' then
        (let x_axis = principal_axis;
             y_axis = cross (0, 0, 1) x_axis;
             z_axis = cross x_axis y_axis
         in (x_axis, y_axis, z_axis))
      else if cylinder_axis = ''Y'' then
        (let y_axis = principal_axis;
             x_axis = cross (0, 0, 1) y_axis;
             z_axis = cross x_axis y_axis
         in (x_axis, y_axis, z_axis))
      else
        (let z_axis = principal_axis;
             x_axis = cross (0, 1, 0) z_axis;
             y_axis = cross z_axis x_axis
         in (x_axis, y_axis, z_axis)))"

text \<open>
  The matrix of source lines 80 to 84, whose columns are the three axes, and
  \<^verbatim>\<open>to_4x4\<close> of the host's matrix type, which pads it with the identity.
\<close>

definition rotation_matrix_3x3 :: "vec3 \<Rightarrow> vec3 \<Rightarrow> vec3 \<Rightarrow> real list list" where
  "rotation_matrix_3x3 x_axis y_axis z_axis =
     (case x_axis of (x0, x1, x2) \<Rightarrow> case y_axis of (y0, y1, y2) \<Rightarrow> case z_axis of (z0, z1, z2) \<Rightarrow>
        [[x0, y0, z0],
         [x1, y1, z1],
         [x2, y2, z2]])"

definition to_4x4 :: "real list list \<Rightarrow> real list list" where
  "to_4x4 m = map (\<lambda>row. row @ [0]) m @ [[0, 0, 0, 1]]"

text \<open>
  \<^verbatim>\<open>calculate_radius_height\<close>. The singular value decomposition is numpy's, not
  this repository's: the function takes as parameter \<open>svd_vh0\<close>, which maps the
  centred points to the first row of \<^verbatim>\<open>vh\<close>.
\<close>

definition calculate_radius_height ::
    "(vec3 list \<Rightarrow> vec3) \<Rightarrow> vec3 list \<Rightarrow> string
       \<Rightarrow> error + (real \<times> real \<times> vec3 \<times> real list list)" where
  "calculate_radius_height svd_vh0 points cylinder_axis =
     (if length points < 2 then Inl ValueError
      else
        let np_points = points;
            centered_points = map (\<lambda>p. vsub p (mean_axis0 np_points)) np_points;
            principal_axis = svd_vh0 centered_points;
            projections = map (\<lambda>p. dot p principal_axis) np_points
        in bind_err (py_min projections) (\<lambda>min_projection.
           bind_err (py_max projections) (\<lambda>max_projection.
             let height = max_projection - min_projection;
                 center_along_axis = (min_projection + max_projection) / 2.0;
                 capsule_center =
                   vadd (mean_axis0 np_points) (smul center_along_axis principal_axis);
                 axis_point = mean_axis0 np_points
             in bind_err
                  (py_max (map (\<lambda>p. distance_to_axis p axis_point principal_axis) np_points))
                  (\<lambda>radius.
                    case align_axes principal_axis cylinder_axis of (x_axis, y_axis0, z_axis) \<Rightarrow>
                      let y_axis = (if vnorm y_axis0 < 0.000001
                                    then cross (0, 1, 0) z_axis else y_axis0);
                          x_unit = vdiv x_axis (vnorm x_axis);
                          y_unit = vdiv y_axis (vnorm y_axis);
                          z_unit = vdiv z_axis (vnorm z_axis)
                      in Inr (radius, height, capsule_center,
                              to_4x4 (rotation_matrix_3x3 x_unit y_unit z_unit))))))"

subsection \<open>Fitter: what the claims speak about\<close>

text \<open>Column \<open>k\<close> of the upper-left 3x3 block of a matrix given by its rows.\<close>

definition mat_col :: "real list list \<Rightarrow> nat \<Rightarrow> vec3" where
  "mat_col m k = (m ! 0 ! k, m ! 1 ! k, m ! 2 ! k)"

definition orthonormal_columns :: "real list list \<Rightarrow> bool" where
  "orthonormal_columns m =
     (vnorm (mat_col m 0) = 1 \<and> vnorm (mat_col m 1) = 1 \<and> vnorm (mat_col m 2) = 1 \<and>
      dot (mat_col m 0) (mat_col m 1) = 0 \<and> dot (mat_col m 0) (mat_col m 2) = 0 \<and>
      dot (mat_col m 1) (mat_col m 2) = 0)"

text \<open>
  The point at parameter \<open>t\<close> of the line through \<open>c\<close> with direction \<open>a\<close>, and the
  distance from a point \<open>p\<close> to that line as geometry has it, with no reference to
  the code: the least distance from \<open>p\<close> to a point of the line.
\<close>

definition line_point :: "vec3 \<Rightarrow> vec3 \<Rightarrow> real \<Rightarrow> vec3" where
  "line_point c a t = vadd c (smul t a)"

definition dist_to_line :: "vec3 \<Rightarrow> vec3 \<Rightarrow> vec3 \<Rightarrow> real" where
  "dist_to_line p c a = Inf (range (\<lambda>t. vnorm (vsub p (line_point c a t))))"

text \<open>
  What a singular value decomposition guarantees of the first row of \<^verbatim>\<open>vh\<close>: it is
  a unit vector, and no unit vector has a larger sum of squared projections of the
  rows of the decomposed matrix.
\<close>

definition sum_sq_proj :: "vec3 list \<Rightarrow> vec3 \<Rightarrow> real" where
  "sum_sq_proj rows v = sum_list (map (\<lambda>r. (dot r v)\<^sup>2) rows)"

definition first_right_singular :: "vec3 list \<Rightarrow> vec3 \<Rightarrow> bool" where
  "first_right_singular rows a =
     (vnorm a = 1 \<and> (\<forall>v. vnorm v = 1 \<longrightarrow> sum_sq_proj rows v \<le> sum_sq_proj rows a))"

subsection \<open>Builder: what the proofs speak about\<close>

text \<open>
  Total correctness of a statement: from every state satisfying \<open>P\<close> it returns
  normally, in a state satisfying \<open>Q\<close>.
\<close>

definition ok :: "('s \<Rightarrow> bool) \<Rightarrow> ('s \<Rightarrow> error + 's) \<Rightarrow> ('s \<Rightarrow> bool) \<Rightarrow> bool" where
  "ok P f Q = (\<forall>s. P s \<longrightarrow> (\<exists>s'. f s = Inr s' \<and> Q s'))"

text \<open>What \<open>validate\<close> guarantees of the arguments.\<close>

definition wf_args :: "capsule_args \<Rightarrow> bool" where
  "wf_args c = (3 \<le> verif_lons c \<and> 2 \<le> verif_lats c \<and> verif_lats c mod 2 = 0 \<and>
     0 \<le> verif_rings c \<and> 0 < verif_rad c \<and> 0 < verif_depth c)"

text \<open>
  The face that the proofs show at index \<open>k\<close> of \<^verbatim>\<open>v_indices\<close>: band \<open>k div L\<close>,
  position \<open>k mod L\<close>. Band 0 is the north fan, the last band is the south fan, the
  bands between are quads from one ring of \<open>L\<close> vertices to the next.
\<close>

definition v_face :: "capsule_args \<Rightarrow> int \<Rightarrow> face" where
  "v_face c k =
     (let L = verif_lons c;
          R = verif_lats c + verif_rings c;
          b = k div L;
          j = k mod L;
          jn = (j + 1) mod L
      in if b = 0 then [0, j + 1, 1 + jn]
         else if b = R then [1 + R * L, 1 + (R - 1) * L + jn, 1 + (R - 1) * L + j]
         else [1 + (b - 1) * L + j, 1 + b * L + j, 1 + b * L + jn, 1 + (b - 1) * L + jn])"

text \<open>The entries from \<open>lo\<close> up to \<open>hi - 1\<close> hold their final faces.\<close>

definition filled :: "capsule_args \<Rightarrow> int \<Rightarrow> int \<Rightarrow> face list \<Rightarrow> bool" where
  "filled c lo hi fs = (\<forall>k. lo \<le> k \<and> k < hi \<longrightarrow> fs ! nat k = v_face c k)"

text \<open>Every index of every face is an index into a buffer of \<open>n\<close> entries.\<close>

definition faces_in :: "int \<Rightarrow> face list \<Rightarrow> bool" where
  "faces_in n fs = (\<forall>f \<in> set fs. \<forall>i \<in> set f. 0 \<le> i \<and> i < n)"

text \<open>The buffers have their allocated lengths, and the texture and normal faces stay in range.\<close>

definition lens :: "capsule_args \<Rightarrow> builder_state \<Rightarrow> bool" where
  "lens c st =
     (int (length (vs st)) = len_vs c \<and> int (length (vts st)) = len_vts c \<and>
      int (length (vns st)) = len_vns c \<and> int (length (v_indices st)) = len_indices c \<and>
      int (length (vt_indices st)) = len_indices c \<and>
      int (length (vn_indices st)) = len_indices c \<and>
      faces_in (len_vts c) (vt_indices st) \<and> faces_in (len_vns c) (vn_indices st))"

definition caches_len :: "capsule_args \<Rightarrow> builder_state \<Rightarrow> bool" where
  "caches_len c st =
     (int (length (sin_cos_theta_cache st)) = verif_lons c \<and>
      int (length (s_tex_cache st)) = verif_lons_p1 c)"

text \<open>
  How far \<^verbatim>\<open>v_indices\<close> is filled: \<open>p\<close> faces of each fan, \<open>nh\<close> quads of each
  hemisphere, \<open>nc\<close> quads of the cylinder.
\<close>

definition fill_inv :: "capsule_args \<Rightarrow> int \<Rightarrow> int \<Rightarrow> int \<Rightarrow> face list \<Rightarrow> bool" where
  "fill_inv c p nh nc fs =
     (filled c 0 p fs \<and>
      filled c (idx_fs_south_hemi c) (idx_fs_south_hemi c + p) fs \<and>
      filled c (verif_lons c) (verif_lons c + nh) fs \<and>
      filled c (idx_fs_south_equat c) (idx_fs_south_equat c + nh) fs \<and>
      filled c (idx_fs_cyl c) (idx_fs_cyl c + nc) fs)"

text \<open>The loop invariants, one per loop of the builder.\<close>

definition pole_inv :: "capsule_args \<Rightarrow> int \<Rightarrow> builder_state \<Rightarrow> bool" where
  "pole_inv c j st =
     (lens c st \<and> int (length (sin_cos_theta_cache st)) = verif_lons c \<and>
      fill_inv c j 0 0 (v_indices st))"

definition equ_inv :: "capsule_args \<Rightarrow> builder_state \<Rightarrow> bool" where
  "equ_inv c st =
     (lens c st \<and> caches_len c st \<and> fill_inv c (verif_lons c) 0 0 (v_indices st))"

definition hemi_inv :: "capsule_args \<Rightarrow> int \<Rightarrow> int \<Rightarrow> builder_state \<Rightarrow> bool" where
  "hemi_inv c nv nt st =
     (lens c st \<and> caches_len c st \<and> fill_inv c (verif_lons c) nv 0 (v_indices st) \<and>
      v_hemi_offset_north st = 1 + nv \<and>
      v_hemi_offset_south st = idx_v_south c + nv \<and>
      vn_hemi_offset_south st = idx_vn_south c + nv \<and>
      f_hemi_offset_north st = verif_lons c + nv \<and>
      f_hemi_offset_south st = idx_fs_south_equat c + nv \<and>
      vt_hemi_offset_north st = verif_lons c + nt \<and>
      vt_hemi_offset_south st = idx_vt_s_hemi c + nt)"

definition mid_inv :: "capsule_args \<Rightarrow> int \<Rightarrow> int \<Rightarrow> builder_state \<Rightarrow> bool" where
  "mid_inv c nv nt st =
     (lens c st \<and> caches_len c st \<and>
      fill_inv c (verif_lons c) (v_lons_half_lat_n1 c) 0 (v_indices st) \<and>
      v_cyl_offset st = idx_v_cyl c + nv \<and> vt_cyl_offset st = idx_vt_cyl c + nt)"

definition cyl_inv :: "capsule_args \<Rightarrow> int \<Rightarrow> builder_state \<Rightarrow> bool" where
  "cyl_inv c n st =
     (lens c st \<and> fill_inv c (verif_lons c) (v_lons_half_lat_n1 c) n (v_indices st) \<and>
      f_cyl_offset st = idx_fs_cyl c + n)"

definition ready :: "capsule_args \<Rightarrow> builder_state \<Rightarrow> bool" where
  "ready c st =
     (lens c st \<and> caches_len c st \<and>
      fill_inv c (verif_lons c) (v_lons_half_lat_n1 c) 0 (v_indices st))"

subsection \<open>Builder: closed, consistently wound surfaces\<close>

text \<open>
  The directed edges of a face: each vertex index with its successor, the last with
  the first.
\<close>

definition face_edges :: "face \<Rightarrow> (int \<times> int) list" where
  "face_edges f = zip f (rotate1 f)"

text \<open>The number of faces that traverse the directed edge \<open>e\<close>.\<close>

definition edge_uses :: "face list \<Rightarrow> int \<times> int \<Rightarrow> nat" where
  "edge_uses fs e = length (filter (\<lambda>g. e \<in> set (face_edges g)) fs)"

text \<open>The number of faces that have the edge between \<open>a\<close> and \<open>b\<close>, in either direction.\<close>

definition edge_faces :: "face list \<Rightarrow> int \<Rightarrow> int \<Rightarrow> nat" where
  "edge_faces fs a b =
     length (filter (\<lambda>g. (a, b) \<in> set (face_edges g) \<or> (b, a) \<in> set (face_edges g)) fs)"

text \<open>
  The vertices by their place on the capsule: the north pole, position \<open>j\<close> of ring
  \<open>t\<close>, the south pole; \<open>enc\<close> is the index of a vertex in \<^verbatim>\<open>vs\<close>, and \<open>aface\<close> the face
  of band \<open>b\<close> at position \<open>j\<close> in these terms.
\<close>

datatype vert = NP | Ring int int | SP

definition enc :: "capsule_args \<Rightarrow> vert \<Rightarrow> int" where
  "enc c v =
     (case v of
        NP \<Rightarrow> 0
      | Ring t j \<Rightarrow> 1 + t * verif_lons c + j
      | SP \<Rightarrow> 1 + (verif_lats c + verif_rings c) * verif_lons c)"

definition vvalid :: "capsule_args \<Rightarrow> vert \<Rightarrow> bool" where
  "vvalid c v =
     (case v of
        Ring t j \<Rightarrow> 0 \<le> t \<and> t < verif_lats c + verif_rings c \<and> 0 \<le> j \<and> j < verif_lons c
      | _ \<Rightarrow> True)"

definition aface :: "capsule_args \<Rightarrow> int \<Rightarrow> int \<Rightarrow> vert list" where
  "aface c b j =
     (let L = verif_lons c;
          R = verif_lats c + verif_rings c;
          jn = (j + 1) mod L
      in if b = 0 then [NP, Ring 0 j, Ring 0 jn]
         else if b = R then [SP, Ring (R - 1) jn, Ring (R - 1) j]
         else [Ring (b - 1) j, Ring b j, Ring b jn, Ring (b - 1) jn])"

definition aedges :: "vert list \<Rightarrow> (vert \<times> vert) list" where
  "aedges f = zip f (rotate1 f)"

section \<open>Properties of the builder\<close>

lemma okI: "(\<And>s. P s \<Longrightarrow> \<exists>s'. f s = Inr s' \<and> Q s') \<Longrightarrow> ok P f Q"
  by (simp add: ok_def)

lemma okD: "ok P f Q \<Longrightarrow> P s \<Longrightarrow> \<exists>s'. f s = Inr s' \<and> Q s'"
  by (simp add: ok_def)

lemma ok_post: "ok P f Q \<Longrightarrow> (\<And>s. Q s \<Longrightarrow> Q' s) \<Longrightarrow> ok P f Q'"
  unfolding ok_def by blast

lemma ok_seq: "ok P c Q \<Longrightarrow> ok Q (run cs) R \<Longrightarrow> ok P (run (c # cs)) R"
  unfolding ok_def by fastforce

lemma run_append: "run (xs @ ys) s = bind_err (run xs s) (run ys)"
  by (induction xs arbitrary: s) (auto simp: bind_err_def split: sum.splits)

lemma ok_run_append: "ok P (run xs) Q \<Longrightarrow> ok Q (run ys) R \<Longrightarrow> ok P (run (xs @ ys)) R"
  unfolding ok_def run_append bind_err_def by fastforce

lemma for_each_append:
  "for_each (xs @ ys) body s = bind_err (for_each xs body s) (for_each ys body)"
  by (induction xs arbitrary: s) (auto simp: bind_err_def split: sum.splits)

lemma py_range_empty: "b \<le> a \<Longrightarrow> py_range a b = []"
  by (simp add: py_range_def)

lemma py_range_snoc: "a \<le> b \<Longrightarrow> py_range a (b + 1) = py_range a b @ [b]"
  by (simp add: py_range_def upto_rec2)

lemma ok_for_upto:
  assumes step: "\<And>k. a \<le> k \<Longrightarrow> k < b \<Longrightarrow> ok (I k) (body k) (I (k + 1))"
  shows "a \<le> n \<Longrightarrow> n \<le> b \<Longrightarrow> ok (I a) (for_each (py_range a n) body) (I n)"
proof (induction n rule: int_ge_induct)
  case base
  show ?case by (simp add: py_range_empty ok_def)
next
  case (step n)
  then have pre: "ok (I a) (for_each (py_range a n) body) (I n)" by simp
  have one: "ok (I n) (body n) (I (n + 1))" using step by (intro assms) simp_all
  show ?case
    unfolding py_range_snoc[OF step.hyps] for_each_append
    using pre one unfolding ok_def bind_err_def by fastforce
qed

lemma ok_for:
  assumes "a \<le> b"
    and "\<And>k. a \<le> k \<Longrightarrow> k < b \<Longrightarrow> ok (I k) (body k) (I (k + 1))"
  shows "ok (I a) (for_each (py_range a b) body) (I b)"
  using ok_for_upto[of a b I body b] assms by simp

lemma py_set_ok: "0 \<le> i \<Longrightarrow> i < int (length xs) \<Longrightarrow> py_set xs i v = Inr (xs[nat i := v])"
  by (simp add: py_set_def py_index_def)

lemma py_get_ok: "0 \<le> i \<Longrightarrow> i < int (length xs) \<Longrightarrow> py_get xs i = Inr (xs ! nat i)"
  by (simp add: py_get_def py_index_def)

lemma wf_validate: "wf_args (validate longitudes latitudes rings depth radius profile)"
  by (auto simp: wf_args_def validate_def Let_def max_def) presburger+

lemma wf_half:
  assumes "wf_args c"
  shows "0 \<le> half_lats_n1 c" "verif_lats c = 2 * half_lats_n1 c + 2"
proof -
  have a: "2 \<le> verif_lats c" and b: "verif_lats c mod 2 = 0"
    using assms by (simp_all add: wf_args_def)
  show "0 \<le> half_lats_n1 c"
    unfolding half_lats_n1_def half_lats_def using a by presburger
  show "verif_lats c = 2 * half_lats_n1 c + 2"
    unfolding half_lats_n1_def half_lats_def using a b by presburger
qed

lemma wf_atoms:
  assumes "wf_args c"
  shows "3 \<le> verif_lons c" "0 \<le> v_lons_half_lat_n1 c" "verif_lons c \<le> v_lons_v_sections_p1 c"
    "0 \<le> half_lats_n1 c" "0 \<le> verif_rings c"
proof -
  show L: "3 \<le> verif_lons c" and r: "0 \<le> verif_rings c" using assms by (simp_all add: wf_args_def)
  show h: "0 \<le> half_lats_n1 c" using wf_half[OF assms] by simp
  show "0 \<le> v_lons_half_lat_n1 c" unfolding v_lons_half_lat_n1_def using h L by simp
  have "1 * verif_lons c \<le> verif_rings_p1 c * verif_lons c"
    using r L by (intro mult_right_mono) (simp_all add: verif_rings_p1_def)
  then show "verif_lons c \<le> v_lons_v_sections_p1 c" by (simp add: v_lons_v_sections_p1_def)
qed

lemma layout:
  assumes "wf_args c"
  shows "idx_v_n_equator c = 1 + v_lons_half_lat_n1 c"
    "idx_v_cyl c = 1 + v_lons_half_lat_n1 c + verif_lons c"
    "idx_v_s_equator c = 1 + v_lons_half_lat_n1 c + v_lons_v_sections_p1 c"
    "idx_v_south c = 1 + v_lons_half_lat_n1 c + v_lons_v_sections_p1 c + verif_lons c"
    "idx_v_south_cap c = 1 + 2 * v_lons_half_lat_n1 c + v_lons_v_sections_p1 c"
    "idx_v_south_pole c = 1 + 2 * v_lons_half_lat_n1 c + v_lons_v_sections_p1 c + verif_lons c"
    "len_vs c = 2 + 2 * v_lons_half_lat_n1 c + v_lons_v_sections_p1 c + verif_lons c"
    "idx_vn_south c = 1 + v_lons_half_lat_n1 c + verif_lons c"
    "idx_vn_south_cap c = 1 + 2 * v_lons_half_lat_n1 c"
    "idx_vn_south_pole c = 1 + 2 * v_lons_half_lat_n1 c + verif_lons c"
    "len_vns c = 1 + 2 * v_lons_half_lat_n1 c + 2 * verif_lons c"
    "idx_fs_cyl c = verif_lons c + v_lons_half_lat_n1 c"
    "idx_fs_south_equat c = verif_lons c + v_lons_half_lat_n1 c + v_lons_v_sections_p1 c"
    "idx_fs_south_hemi c = verif_lons c + 2 * v_lons_half_lat_n1 c + v_lons_v_sections_p1 c"
    "len_indices c = 2 * verif_lons c + 2 * v_lons_half_lat_n1 c + v_lons_v_sections_p1 c"
    "idx_vt_n_equator c = verif_lons c + v_lons_half_lat_n1 c + half_lats_n1 c"
    "idx_vt_cyl c = 2 * verif_lons c + 1 + v_lons_half_lat_n1 c + half_lats_n1 c"
    "idx_vt_s_equator c = verif_lons c + 1 + v_lons_half_lat_n1 c + half_lats_n1 c
        + v_lons_v_sections_p1 c + verif_rings c"
    "idx_vt_s_hemi c = 2 * verif_lons c + 2 + v_lons_half_lat_n1 c + half_lats_n1 c
        + v_lons_v_sections_p1 c + verif_rings c"
    "idx_vt_s_polar c = verif_lons c + 1 + 2 * v_lons_half_lat_n1 c + 2 * half_lats_n1 c
        + v_lons_v_sections_p1 c + verif_rings c"
    "idx_vt_s_cap c = 2 * verif_lons c + 2 + 2 * v_lons_half_lat_n1 c + 2 * half_lats_n1 c
        + v_lons_v_sections_p1 c + verif_rings c"
    "len_vts c = 3 * verif_lons c + 2 + 2 * v_lons_half_lat_n1 c + 2 * half_lats_n1 c
        + v_lons_v_sections_p1 c + verif_rings c"
  unfolding idx_v_n_equator_def idx_v_cyl_def idx_v_s_equator_def idx_v_south_def
    idx_v_south_cap_def idx_v_south_pole_def idx_vt_n_equator_def idx_vt_cyl_def
    idx_vt_s_equator_def idx_vt_s_hemi_def idx_vt_s_polar_def idx_vt_s_cap_def idx_vn_south_def
    idx_vn_south_cap_def idx_vn_south_pole_def idx_fs_cyl_def idx_fs_south_equat_def
    idx_fs_south_hemi_def len_vs_def len_vts_def len_vns_def len_indices_def
    v_lons_half_lat_n1_def v_lons_v_sections_p1_def half_lats_n2_def verif_rings_p1_def
    verif_lons_p1_def calc_middle_def
  using wf_atoms(5)[OF assms] by (simp_all add: algebra_simps half_lats_n1_def)

lemma band_div_mod:
  assumes "0 \<le> j" "j < L" "k = b * L + j"
  shows "k div L = b" "k mod L = (j::int)"
  using assms by (simp_all add: div_pos_pos_trivial)

lemma rings_total:
  assumes "wf_args c"
  shows "idx_fs_south_hemi c = (verif_lats c + verif_rings c) * verif_lons c"
    "idx_v_south_pole c = 1 + (verif_lats c + verif_rings c) * verif_lons c"
    "idx_v_south_cap c = 1 + (verif_lats c + verif_rings c - 1) * verif_lons c"
    "idx_fs_cyl c = (half_lats_n1 c + 1) * verif_lons c"
    "idx_fs_south_equat c = (half_lats_n1 c + verif_rings c + 2) * verif_lons c"
    "idx_v_n_equator c = 1 + half_lats_n1 c * verif_lons c"
    "idx_v_s_equator c = 1 + (half_lats_n1 c + verif_rings c + 1) * verif_lons c"
  unfolding layout[OF assms] wf_half(2)[OF assms] v_lons_half_lat_n1_def v_lons_v_sections_p1_def
    verif_rings_p1_def
  by (simp_all add: algebra_simps)

lemma v_face_north_fan:
  assumes "wf_args c" "0 \<le> j" "j < verif_lons c"
  shows "v_face c j = [0, j + 1, 1 + (j + 1) mod verif_lons c]"
  using assms(2,3) by (simp add: v_face_def Let_def div_pos_pos_trivial)

lemma v_face_south_fan:
  assumes "wf_args c" "0 \<le> j" "j < verif_lons c"
  shows "v_face c (idx_fs_south_hemi c + j) =
    [idx_v_south_pole c, idx_v_south_cap c + (j + 1) mod verif_lons c, idx_v_south_cap c + j]"
proof -
  let ?R = "verif_lats c + verif_rings c"
  have R: "?R \<noteq> 0" using assms(1) by (simp add: wf_args_def)
  have d: "(idx_fs_south_hemi c + j) div verif_lons c = ?R"
    and m: "(idx_fs_south_hemi c + j) mod verif_lons c = j"
    using band_div_mod[OF assms(2,3), of "idx_fs_south_hemi c + j" ?R]
    by (simp_all add: rings_total(1)[OF assms(1)])
  show ?thesis
    unfolding v_face_def Let_def d m rings_total(2,3)[OF assms(1)] using R by simp
qed

lemma v_face_quad:
  assumes "0 \<le> j" "j < verif_lons c" "0 < b" "b < verif_lats c + verif_rings c"
  shows "v_face c (b * verif_lons c + j) =
    [1 + (b - 1) * verif_lons c + j, 1 + b * verif_lons c + j,
     1 + b * verif_lons c + (j + 1) mod verif_lons c,
     1 + (b - 1) * verif_lons c + (j + 1) mod verif_lons c]"
proof -
  have d: "(b * verif_lons c + j) div verif_lons c = b"
    and m: "(b * verif_lons c + j) mod verif_lons c = j"
    using band_div_mod[OF assms(1,2), of "b * verif_lons c + j" b] by simp_all
  show ?thesis unfolding v_face_def Let_def d m using assms(3,4) by simp
qed

lemma v_face_north_quad:
  assumes "wf_args c" "0 \<le> j" "j < verif_lons c" "0 \<le> i" "i < half_lats_n1 c"
  shows "v_face c (verif_lons c + i * verif_lons c + j) =
    [v_curr_lat_n c i + j, v_next_lat_n c i + j,
     v_next_lat_n c i + (j + 1) mod verif_lons c, v_curr_lat_n c i + (j + 1) mod verif_lons c]"
proof -
  have "0 < i + 1" "i + 1 < verif_lats c + verif_rings c"
    using assms(4,5) wf_half(2)[OF assms(1)] wf_atoms(5)[OF assms(1)] by simp_all
  from v_face_quad[OF assms(2,3) this] show ?thesis
    by (simp add: v_curr_lat_n_def v_next_lat_n_def algebra_simps)
qed

lemma v_face_south_quad:
  assumes "wf_args c" "0 \<le> j" "j < verif_lons c" "0 \<le> i" "i < half_lats_n1 c"
  shows "v_face c (idx_fs_south_equat c + i * verif_lons c + j) =
    [v_curr_lat_s c i + j, v_next_lat_s c i + j,
     v_next_lat_s c i + (j + 1) mod verif_lons c, v_curr_lat_s c i + (j + 1) mod verif_lons c]"
proof -
  let ?b = "half_lats_n1 c + verif_rings c + 2 + i"
  have "0 < ?b" "?b < verif_lats c + verif_rings c"
    using assms(4,5) wf_half[OF assms(1)] wf_atoms(5)[OF assms(1)] by simp_all
  from v_face_quad[OF assms(2,3) this] show ?thesis
    by (simp add: v_curr_lat_s_def v_next_lat_s_def rings_total[OF assms(1)] algebra_simps)
qed

lemma v_face_cyl_quad:
  assumes "wf_args c" "0 \<le> j" "j < verif_lons c" "0 \<le> m" "m \<le> verif_rings c"
  shows "v_face c (idx_fs_cyl c + m * verif_lons c + j) =
    [idx_v_n_equator c + m * verif_lons c + j,
     idx_v_n_equator c + m * verif_lons c + verif_lons c + j,
     idx_v_n_equator c + m * verif_lons c + verif_lons c + (j + 1) mod verif_lons c,
     idx_v_n_equator c + m * verif_lons c + (j + 1) mod verif_lons c]"
proof -
  let ?b = "half_lats_n1 c + 1 + m"
  have "0 < ?b" "?b < verif_lats c + verif_rings c"
    using assms(4,5) wf_half[OF assms(1)] wf_atoms(5)[OF assms(1)] by simp_all
  from v_face_quad[OF assms(2,3) this] show ?thesis
    by (simp add: rings_total[OF assms(1)] algebra_simps)
qed

lemma filled_update:
  assumes "filled c lo hi fs" "0 \<le> lo" "0 \<le> k" "f = v_face c k"
  shows "filled c lo hi (fs[nat k := f])"
  unfolding filled_def
proof (intro allI impI)
  fix k' assume k': "lo \<le> k' \<and> k' < hi"
  show "fs[nat k := f] ! nat k' = v_face c k'"
  proof (cases "k' = k")
    case True
    then show ?thesis
      using assms k' by (cases "nat k < length fs") (simp_all add: filled_def list_update_beyond)
  next
    case False
    then have "nat k \<noteq> nat k'" using assms(2,3) k' by auto
    then show ?thesis using assms(1) k' by (simp add: filled_def)
  qed
qed

lemma filled_grow:
  assumes "filled c lo hi fs" "0 \<le> lo" "0 \<le> hi" "hi < int (length fs)" "f = v_face c hi"
  shows "filled c lo (hi + 1) (fs[nat hi := f])"
  unfolding filled_def
proof (intro allI impI)
  fix k' assume k': "lo \<le> k' \<and> k' < hi + 1"
  show "fs[nat hi := f] ! nat k' = v_face c k'"
  proof (cases "k' = hi")
    case True
    then show ?thesis using assms by simp
  next
    case False
    then have "nat hi \<noteq> nat k'" "k' < hi" using assms(2,3) k' by auto
    then show ?thesis using assms(1) k' by (simp add: filled_def)
  qed
qed

lemma filled_empty: "filled c lo lo fs"
  by (auto simp: filled_def)

lemma filled_join: "filled c a b fs \<Longrightarrow> filled c b d fs \<Longrightarrow> filled c a d fs"
  unfolding filled_def by (metis not_le_imp_less)

lemma faces_in_update:
  assumes "faces_in n fs" "\<forall>i \<in> set f. 0 \<le> i \<and> i < n"
  shows "faces_in n (fs[k := f])"
  using assms set_update_subset_insert[of fs k f] unfolding faces_in_def by blast

lemma set_vs_Inr:
  "0 \<le> i \<Longrightarrow> i < int (length (vs st)) \<Longrightarrow> set_vs i v st = Inr (st\<lparr>vs := (vs st)[nat i := v]\<rparr>)"
  by (simp add: set_vs_def py_set_ok bind_err_def)

lemma set_vts_Inr:
  "0 \<le> i \<Longrightarrow> i < int (length (vts st)) \<Longrightarrow> set_vts i v st = Inr (st\<lparr>vts := (vts st)[nat i := v]\<rparr>)"
  by (simp add: set_vts_def py_set_ok bind_err_def)

lemma set_vns_Inr:
  "0 \<le> i \<Longrightarrow> i < int (length (vns st)) \<Longrightarrow> set_vns i v st = Inr (st\<lparr>vns := (vns st)[nat i := v]\<rparr>)"
  by (simp add: set_vns_def py_set_ok bind_err_def)

lemma set_v_indices_Inr:
  "0 \<le> i \<Longrightarrow> i < int (length (v_indices st)) \<Longrightarrow>
   set_v_indices i v st = Inr (st\<lparr>v_indices := (v_indices st)[nat i := v]\<rparr>)"
  by (simp add: set_v_indices_def py_set_ok bind_err_def)

lemma set_vt_indices_Inr:
  "0 \<le> i \<Longrightarrow> i < int (length (vt_indices st)) \<Longrightarrow>
   set_vt_indices i v st = Inr (st\<lparr>vt_indices := (vt_indices st)[nat i := v]\<rparr>)"
  by (simp add: set_vt_indices_def py_set_ok bind_err_def)

lemma set_vn_indices_Inr:
  "0 \<le> i \<Longrightarrow> i < int (length (vn_indices st)) \<Longrightarrow>
   set_vn_indices i v st = Inr (st\<lparr>vn_indices := (vn_indices st)[nat i := v]\<rparr>)"
  by (simp add: set_vn_indices_def py_set_ok bind_err_def)

lemma set_sin_cos_theta_cache_Inr:
  "0 \<le> i \<Longrightarrow> i < int (length (sin_cos_theta_cache st)) \<Longrightarrow>
   set_sin_cos_theta_cache i v st
     = Inr (st\<lparr>sin_cos_theta_cache := (sin_cos_theta_cache st)[nat i := v]\<rparr>)"
  by (simp add: set_sin_cos_theta_cache_def py_set_ok bind_err_def)

lemma set_s_tex_cache_Inr:
  "0 \<le> i \<Longrightarrow> i < int (length (s_tex_cache st)) \<Longrightarrow>
   set_s_tex_cache i v st = Inr (st\<lparr>s_tex_cache := (s_tex_cache st)[nat i := v]\<rparr>)"
  by (simp add: set_s_tex_cache_def py_set_ok bind_err_def)

lemmas set_Inr = set_vs_Inr set_vts_Inr set_vns_Inr set_v_indices_Inr set_vt_indices_Inr
  set_vn_indices_Inr set_sin_cos_theta_cache_Inr set_s_tex_cache_Inr

lemma pole_step_effect:
  assumes wf: "wf_args c" and j: "0 \<le> j" "j < verif_lons c"
    and inv: "lens c st" "int (length (sin_cos_theta_cache st)) = verif_lons c"
  shows "\<exists>s'. pole_step c j st = Inr s' \<and> lens c s' \<and>
     int (length (sin_cos_theta_cache s')) = verif_lons c \<and>
     v_indices s' = (v_indices st)[nat j := v_face c j,
        nat (idx_fs_south_hemi c + j) := v_face c (idx_fs_south_hemi c + j)]"
proof -
  note A = wf_atoms[OF wf]
  define jn where "jn = (j + 1) mod verif_lons c"
  have m: "0 \<le> jn" "jn < verif_lons c"
    using A(1) by (simp_all add: jn_def)
  note vf = v_face_north_fan[OF wf j] v_face_south_fan[OF wf j]
  show ?thesis
    using inv A j m unfolding vf lens_def pole_step_def Let_def jn_def[symmetric]
    apply (simp add: set_Inr layout[OF wf] verif_lons_p1_def)
    apply (intro conjI faces_in_update)
    apply (simp_all add: layout[OF wf])
    done
qed

lemma equator_uv_step_effect:
  assumes wf: "wf_args c" and j: "0 \<le> j" "j < verif_lons_p1 c"
    and inv: "lens c st" "caches_len c st"
  shows "\<exists>s'. equator_uv_step c j st = Inr s' \<and> lens c s' \<and> caches_len c s' \<and>
     v_indices s' = v_indices st"
proof -
  note A = wf_atoms[OF wf]
  show ?thesis
    using inv A j unfolding lens_def caches_len_def equator_uv_step_def Let_def
    by (simp add: set_Inr layout[OF wf] verif_lons_p1_def)
qed

lemma hemi_vertex_step_effect:
  assumes wf: "wf_args c" and i: "0 \<le> i" "i < half_lats_n1 c"
    and j: "0 \<le> j" "j < verif_lons c"
    and inv: "lens c st" "caches_len c st"
    and cnt: "v_hemi_offset_north st = 1 + i * verif_lons c + j"
      "v_hemi_offset_south st = idx_v_south c + i * verif_lons c + j"
      "vn_hemi_offset_south st = idx_vn_south c + i * verif_lons c + j"
      "f_hemi_offset_north st = verif_lons c + i * verif_lons c + j"
      "f_hemi_offset_south st = idx_fs_south_equat c + i * verif_lons c + j"
  shows "\<exists>s'. hemi_vertex_step c i j st = Inr s' \<and> lens c s' \<and> caches_len c s' \<and>
     v_hemi_offset_north s' = v_hemi_offset_north st + 1 \<and>
     v_hemi_offset_south s' = v_hemi_offset_south st + 1 \<and>
     vn_hemi_offset_south s' = vn_hemi_offset_south st + 1 \<and>
     f_hemi_offset_north s' = f_hemi_offset_north st + 1 \<and>
     f_hemi_offset_south s' = f_hemi_offset_south st + 1 \<and>
     vt_hemi_offset_north s' = vt_hemi_offset_north st \<and>
     vt_hemi_offset_south s' = vt_hemi_offset_south st \<and>
     v_indices s' = (v_indices st)
       [nat (verif_lons c + i * verif_lons c + j)
          := v_face c (verif_lons c + i * verif_lons c + j),
        nat (idx_fs_south_equat c + i * verif_lons c + j)
          := v_face c (idx_fs_south_equat c + i * verif_lons c + j)]"
proof -
  note A = wf_atoms[OF wf]
  define jn where "jn = (j + 1) mod verif_lons c"
  have m: "0 \<le> jn" "jn < verif_lons c"
    using A(1) by (simp_all add: jn_def)
  define P where "P = i * verif_lons c"
  have "i * verif_lons c \<le> (half_lats_n1 c - 1) * verif_lons c"
    using i A(1) by (intro mult_right_mono) simp_all
  then have P: "0 \<le> P" "P + verif_lons c \<le> v_lons_half_lat_n1 c"
    using i A(1) by (simp_all add: P_def v_lons_half_lat_n1_def algebra_simps)
  have e: "i * (verif_lons c + 1) = P + i" by (simp add: P_def algebra_simps)
  note vf = v_face_north_quad[OF wf j i] v_face_south_quad[OF wf j i]
  obtain sn cs where sc: "sin_cos_theta_cache st ! nat j = (sn, cs)"
    by (cases "sin_cos_theta_cache st ! nat j")
  have get: "py_get (sin_cos_theta_cache st) j = Inr (sn, cs)"
    using inv(2) j sc by (simp add: py_get_ok caches_len_def)
  show ?thesis
    using inv A i j m P cnt
    unfolding vf lens_def caches_len_def hemi_vertex_step_def Let_def jn_def[symmetric] get
      bind_err_def
    apply (simp add: set_Inr layout[OF wf] verif_lons_p1_def assign_def
        v_curr_lat_n_def v_next_lat_n_def vt_curr_lat_n_def vt_next_lat_n_def
        vn_curr_lat_n_def vn_next_lat_n_def v_curr_lat_s_def v_next_lat_s_def
        vt_curr_lat_s_def vt_next_lat_s_def vn_curr_lat_s_def vn_next_lat_s_def e
        P_def[symmetric])
    apply (intro conjI faces_in_update)
    apply (simp_all add: layout[OF wf])
    done
qed

lemma hemi_uv_step_effect:
  assumes wf: "wf_args c" and i: "0 \<le> i" "i < half_lats_n1 c"
    and j: "0 \<le> j" "j < verif_lons_p1 c"
    and inv: "lens c st" "caches_len c st"
    and cnt: "vt_hemi_offset_north st = verif_lons c + i * verif_lons_p1 c + j"
      "vt_hemi_offset_south st = idx_vt_s_hemi c + i * verif_lons_p1 c + j"
  shows "\<exists>s'. hemi_uv_step c i j st = Inr s' \<and> lens c s' \<and> caches_len c s' \<and>
     v_hemi_offset_north s' = v_hemi_offset_north st \<and>
     v_hemi_offset_south s' = v_hemi_offset_south st \<and>
     vn_hemi_offset_south s' = vn_hemi_offset_south st \<and>
     f_hemi_offset_north s' = f_hemi_offset_north st \<and>
     f_hemi_offset_south s' = f_hemi_offset_south st \<and>
     vt_hemi_offset_north s' = vt_hemi_offset_north st + 1 \<and>
     vt_hemi_offset_south s' = vt_hemi_offset_south st + 1 \<and>
     v_indices s' = v_indices st"
proof -
  note A = wf_atoms[OF wf]
  define P where "P = i * verif_lons c"
  have "i * verif_lons c \<le> (half_lats_n1 c - 1) * verif_lons c"
    using i A(1) by (intro mult_right_mono) simp_all
  then have P: "0 \<le> P" "P + verif_lons c \<le> v_lons_half_lat_n1 c"
    using i A(1) by (simp_all add: P_def v_lons_half_lat_n1_def algebra_simps)
  have e: "i * (verif_lons c + 1) = P + i" by (simp add: P_def algebra_simps)
  have get: "py_get (s_tex_cache st) j = Inr (s_tex_cache st ! nat j)"
    using inv(2) j by (simp add: py_get_ok caches_len_def)
  show ?thesis
    using inv A i j P cnt
    unfolding lens_def caches_len_def hemi_uv_step_def Let_def get bind_err_def
    by (simp add: set_Inr layout[OF wf] verif_lons_p1_def assign_def e)
qed

lemma cyl_vertex_step_effect:
  assumes wf: "wf_args c" and m: "1 \<le> m" "m \<le> verif_rings c"
    and j: "0 \<le> j" "j < verif_lons c"
    and inv: "lens c st" "caches_len c st"
    and cnt: "v_cyl_offset st = idx_v_cyl c + (m - 1) * verif_lons c + j"
  shows "\<exists>s'. cyl_vertex_step c m j st = Inr s' \<and> lens c s' \<and> caches_len c s' \<and>
     v_cyl_offset s' = v_cyl_offset st + 1 \<and> vt_cyl_offset s' = vt_cyl_offset st \<and>
     v_indices s' = v_indices st"
proof -
  note A = wf_atoms[OF wf]
  define P where "P = (m - 1) * verif_lons c"
  have "(m - 1) * verif_lons c \<le> (verif_rings c - 1) * verif_lons c"
    using m A(1) by (intro mult_right_mono) simp_all
  then have P: "0 \<le> P" "P + 2 * verif_lons c \<le> v_lons_v_sections_p1 c"
    using m A(1) by (simp_all add: P_def v_lons_v_sections_p1_def verif_rings_p1_def algebra_simps)
  obtain n0 n1 n2 where n: "vs st ! nat (idx_v_n_equator c + j) = (n0, n1, n2)"
    by (cases "vs st ! nat (idx_v_n_equator c + j)")
  obtain s0 s1 s2 where s: "vs st ! nat (idx_v_s_equator c + j) = (s0, s1, s2)"
    by (cases "vs st ! nat (idx_v_s_equator c + j)")
  have get: "py_get (vs st) (idx_v_n_equator c + j) = Inr (n0, n1, n2)"
    "py_get (vs st) (idx_v_s_equator c + j) = Inr (s0, s1, s2)"
    using inv(1) j A n s by (simp_all add: py_get_ok lens_def layout[OF wf])
  show ?thesis
    using inv A m j P cnt
    unfolding lens_def caches_len_def cyl_vertex_step_def Let_def get bind_err_def
      P_def[symmetric]
    by (simp add: set_Inr layout[OF wf] verif_lons_p1_def assign_def)
qed

lemma cyl_uv_step_effect:
  assumes wf: "wf_args c" and m: "1 \<le> m" "m \<le> verif_rings c"
    and j: "0 \<le> j" "j < verif_lons_p1 c"
    and inv: "lens c st" "caches_len c st"
    and cnt: "vt_cyl_offset st = idx_vt_cyl c + (m - 1) * verif_lons_p1 c + j"
  shows "\<exists>s'. cyl_uv_step c m j st = Inr s' \<and> lens c s' \<and> caches_len c s' \<and>
     v_cyl_offset s' = v_cyl_offset st \<and> vt_cyl_offset s' = vt_cyl_offset st + 1 \<and>
     v_indices s' = v_indices st"
proof -
  note A = wf_atoms[OF wf]
  define P where "P = (m - 1) * verif_lons c"
  have "(m - 1) * verif_lons c \<le> (verif_rings c - 1) * verif_lons c"
    using m A(1) by (intro mult_right_mono) simp_all
  then have P: "0 \<le> P" "P + 2 * verif_lons c \<le> v_lons_v_sections_p1 c"
    using m A(1) by (simp_all add: P_def v_lons_v_sections_p1_def verif_rings_p1_def algebra_simps)
  have e: "(m - 1) * (verif_lons c + 1) = P + m - 1" by (simp add: P_def algebra_simps)
  have get: "py_get (s_tex_cache st) j = Inr (s_tex_cache st ! nat j)"
    using inv(2) j by (simp add: py_get_ok caches_len_def)
  show ?thesis
    using inv A m j P cnt
    unfolding lens_def caches_len_def cyl_uv_step_def Let_def get bind_err_def
    by (simp add: set_Inr layout[OF wf] verif_lons_p1_def assign_def e)
qed

lemma cyl_face_step_effect:
  assumes wf: "wf_args c" and m: "0 \<le> m" "m \<le> verif_rings c"
    and j: "0 \<le> j" "j < verif_lons c"
    and inv: "lens c st"
    and cnt: "f_cyl_offset st = idx_fs_cyl c + m * verif_lons c + j"
  shows "\<exists>s'. cyl_face_step c m j st = Inr s' \<and> lens c s' \<and>
     f_cyl_offset s' = f_cyl_offset st + 1 \<and>
     v_indices s' = (v_indices st)
       [nat (idx_fs_cyl c + m * verif_lons c + j)
          := v_face c (idx_fs_cyl c + m * verif_lons c + j)]"
proof -
  note A = wf_atoms[OF wf]
  define jn where "jn = (j + 1) mod verif_lons c"
  have jn: "0 \<le> jn" "jn < verif_lons c"
    using A(1) by (simp_all add: jn_def)
  define P where "P = m * verif_lons c"
  have "m * verif_lons c \<le> verif_rings c * verif_lons c"
    using m A(1) by (intro mult_right_mono) simp_all
  then have P: "0 \<le> P" "P + verif_lons c \<le> v_lons_v_sections_p1 c"
    using m A(1) by (simp_all add: P_def v_lons_v_sections_p1_def verif_rings_p1_def algebra_simps)
  have e: "m * (verif_lons c + 1) = P + m" by (simp add: P_def algebra_simps)
  note vf = v_face_cyl_quad[OF wf j m]
  show ?thesis
    using inv A m j jn P cnt
    unfolding vf lens_def cyl_face_step_def Let_def jn_def[symmetric]
    apply (simp add: set_Inr layout[OF wf] verif_lons_p1_def assign_def e P_def[symmetric])
    apply (intro conjI faces_in_update)
    apply (simp_all add: layout[OF wf])
    done
qed

lemma filled_write2:
  assumes "filled c lo hi fs" "0 \<le> lo" "0 \<le> a" "0 \<le> b"
    "a < int (length fs)" "b < int (length fs)"
    "hi' = hi \<or> (hi' = hi + 1 \<and> (a = hi \<or> b = hi))"
  shows "filled c lo hi' (fs[nat a := v_face c a, nat b := v_face c b])"
proof -
  consider "hi' = hi" | "hi' = hi + 1" "a = hi" | "hi' = hi + 1" "b = hi"
    using assms(7) by blast
  then show ?thesis
  proof cases
    case 1
    have s1: "filled c lo hi (fs[nat a := v_face c a])"
      by (rule filled_update[OF assms(1,2,3) refl])
    show ?thesis unfolding 1 by (rule filled_update[OF s1 assms(2,4) refl])
  next
    case 2
    have s1: "filled c lo (hi + 1) (fs[nat a := v_face c a])"
      unfolding 2(2) by (rule filled_grow[OF assms(1,2) _ _ refl]) (use assms 2 in simp_all)
    show ?thesis unfolding 2(1) by (rule filled_update[OF s1 assms(2,4) refl])
  next
    case 3
    have s1: "filled c lo hi (fs[nat a := v_face c a])"
      by (rule filled_update[OF assms(1,2,3) refl])
    show ?thesis unfolding 3
      by (rule filled_grow[OF s1 assms(2) _ _ refl]) (use assms 3 in simp_all)
  qed
qed

lemma filled_write1:
  assumes "filled c lo hi fs" "0 \<le> lo" "0 \<le> a" "a < int (length fs)"
    "hi' = hi \<or> (hi' = hi + 1 \<and> a = hi)"
  shows "filled c lo hi' (fs[nat a := v_face c a])"
  using filled_write2[OF assms(1,2,3,3,4,4), of hi'] assms(5) by simp

lemma fill_pole:
  assumes wf: "wf_args c" and "fill_inv c p nh nc fs" "0 \<le> p" "p < verif_lons c"
    "int (length fs) = len_indices c"
  shows "fill_inv c (p + 1) nh nc
    (fs[nat p := v_face c p, nat (idx_fs_south_hemi c + p) := v_face c (idx_fs_south_hemi c + p)])"
proof -
  note A = wf_atoms[OF wf]
  have b: "0 \<le> idx_fs_south_hemi c" "0 \<le> idx_fs_south_equat c" "0 \<le> idx_fs_cyl c"
    "idx_fs_south_hemi c + p < len_indices c" "p < len_indices c"
    using A assms(3,4) by (simp_all add: layout[OF wf])
  from assms(2) have f: "filled c 0 p fs"
    "filled c (idx_fs_south_hemi c) (idx_fs_south_hemi c + p) fs"
    "filled c (verif_lons c) (verif_lons c + nh) fs"
    "filled c (idx_fs_south_equat c) (idx_fs_south_equat c + nh) fs"
    "filled c (idx_fs_cyl c) (idx_fs_cyl c + nc) fs"
    by (simp_all add: fill_inv_def)
  show ?thesis
    unfolding fill_inv_def
    by (intro conjI filled_write2[OF f(1)] filled_write2[OF f(2)] filled_write2[OF f(3)]
        filled_write2[OF f(4)] filled_write2[OF f(5)])
      (use assms(3-) A(1) b in simp_all)
qed

lemma fill_hemi:
  assumes wf: "wf_args c" and "fill_inv c p nh nc fs" "0 \<le> n" "n < v_lons_half_lat_n1 c"
    "int (length fs) = len_indices c" "n = nh"
  shows "fill_inv c p (nh + 1) nc
    (fs[nat (verif_lons c + n) := v_face c (verif_lons c + n),
        nat (idx_fs_south_equat c + n) := v_face c (idx_fs_south_equat c + n)])"
proof -
  note A = wf_atoms[OF wf]
  have b: "0 \<le> idx_fs_south_hemi c" "0 \<le> idx_fs_south_equat c" "0 \<le> idx_fs_cyl c"
    "idx_fs_south_equat c + n < len_indices c" "verif_lons c + n < len_indices c"
    using A assms(3,4) by (simp_all add: layout[OF wf])
  from assms(2) have f: "filled c 0 p fs"
    "filled c (idx_fs_south_hemi c) (idx_fs_south_hemi c + p) fs"
    "filled c (verif_lons c) (verif_lons c + nh) fs"
    "filled c (idx_fs_south_equat c) (idx_fs_south_equat c + nh) fs"
    "filled c (idx_fs_cyl c) (idx_fs_cyl c + nc) fs"
    by (simp_all add: fill_inv_def)
  show ?thesis
    unfolding fill_inv_def
    by (intro conjI filled_write2[OF f(1)] filled_write2[OF f(2)] filled_write2[OF f(3)]
        filled_write2[OF f(4)] filled_write2[OF f(5)])
      (use assms(3-) A(1) b in simp_all)
qed

lemma fill_cyl:
  assumes wf: "wf_args c" and "fill_inv c p nh nc fs" "0 \<le> n" "n < v_lons_v_sections_p1 c"
    "int (length fs) = len_indices c" "n = nc"
  shows "fill_inv c p nh (nc + 1)
    (fs[nat (idx_fs_cyl c + n) := v_face c (idx_fs_cyl c + n)])"
proof -
  note A = wf_atoms[OF wf]
  have b: "0 \<le> idx_fs_south_hemi c" "0 \<le> idx_fs_south_equat c" "0 \<le> idx_fs_cyl c"
    "idx_fs_cyl c + n < len_indices c"
    using A assms(3,4) by (simp_all add: layout[OF wf])
  from assms(2) have f: "filled c 0 p fs"
    "filled c (idx_fs_south_hemi c) (idx_fs_south_hemi c + p) fs"
    "filled c (verif_lons c) (verif_lons c + nh) fs"
    "filled c (idx_fs_south_equat c) (idx_fs_south_equat c + nh) fs"
    "filled c (idx_fs_cyl c) (idx_fs_cyl c + nc) fs"
    by (simp_all add: fill_inv_def)
  show ?thesis
    unfolding fill_inv_def
    by (intro conjI filled_write1[OF f(1)] filled_write1[OF f(2)] filled_write1[OF f(3)]
        filled_write1[OF f(4)] filled_write1[OF f(5)])
      (use assms(3-) A(1) b in simp_all)
qed

lemma fill_all:
  assumes wf: "wf_args c"
    and "fill_inv c (verif_lons c) (v_lons_half_lat_n1 c) (v_lons_v_sections_p1 c) fs"
  shows "filled c 0 (len_indices c) fs"
proof -
  let ?L = "verif_lons c" and ?A = "v_lons_half_lat_n1 c" and ?V = "v_lons_v_sections_p1 c"
  from assms(2) have f: "filled c 0 ?L fs" "filled c ?L (?L + ?A) fs"
    "filled c (?L + ?A) (?L + ?A + ?V) fs" "filled c (?L + ?A + ?V) (?L + ?A + ?V + ?A) fs"
    "filled c (?L + 2 * ?A + ?V) (?L + 2 * ?A + ?V + ?L) fs"
    by (simp_all add: fill_inv_def layout[OF wf])
  have e: "?L + ?A + ?V + ?A = ?L + 2 * ?A + ?V" "?L + 2 * ?A + ?V + ?L = len_indices c"
    by (simp_all add: layout[OF wf])
  show ?thesis
    using f unfolding e by (blast intro: filled_join)
qed

lemma ok_run_single: "ok P f Q \<Longrightarrow> ok P (run [f]) Q"
  unfolding ok_def by fastforce

lemma lens_v_indices: "lens c st \<Longrightarrow> int (length (v_indices st)) = len_indices c"
  by (simp add: lens_def)

lemma pole_step_ok:
  assumes wf: "wf_args c" and j: "0 \<le> j" "j < verif_lons c"
  shows "ok (pole_inv c j) (pole_step c j) (pole_inv c (j + 1))"
proof (rule okI)
  fix st assume inv: "pole_inv c j st"
  then have i: "lens c st" "int (length (sin_cos_theta_cache st)) = verif_lons c"
    and f: "fill_inv c j 0 0 (v_indices st)"
    by (simp_all add: pole_inv_def)
  from pole_step_effect[OF wf j i] obtain s' where s': "pole_step c j st = Inr s'"
    "lens c s'" "int (length (sin_cos_theta_cache s')) = verif_lons c"
    "v_indices s' = (v_indices st)[nat j := v_face c j,
        nat (idx_fs_south_hemi c + j) := v_face c (idx_fs_south_hemi c + j)]"
    by blast
  have "fill_inv c (j + 1) 0 0 (v_indices s')"
    unfolding s'(4) by (rule fill_pole[OF wf f j lens_v_indices[OF i(1)]])
  then show "\<exists>s'. pole_step c j st = Inr s' \<and> pole_inv c (j + 1) s'"
    using s' by (simp add: pole_inv_def)
qed

lemma equator_uv_step_ok:
  assumes wf: "wf_args c" and j: "0 \<le> j" "j < verif_lons_p1 c"
  shows "ok (equ_inv c) (equator_uv_step c j) (equ_inv c)"
proof (rule okI)
  fix st assume inv: "equ_inv c st"
  then have i: "lens c st" "caches_len c st" by (simp_all add: equ_inv_def)
  from equator_uv_step_effect[OF wf j i] inv
  show "\<exists>s'. equator_uv_step c j st = Inr s' \<and> equ_inv c s'"
    by (auto simp: equ_inv_def)
qed

lemma hemi_bound:
  assumes wf: "wf_args c" and i: "0 \<le> i" "i < half_lats_n1 c" and j: "0 \<le> j" "j < verif_lons c"
  shows "0 \<le> i * verif_lons c + j" "i * verif_lons c + j < v_lons_half_lat_n1 c"
proof -
  note A = wf_atoms[OF wf]
  have "i * verif_lons c \<le> (half_lats_n1 c - 1) * verif_lons c"
    using i A(1) by (intro mult_right_mono) simp_all
  then show "i * verif_lons c + j < v_lons_half_lat_n1 c"
    using j by (simp add: v_lons_half_lat_n1_def algebra_simps)
  show "0 \<le> i * verif_lons c + j" using i j A(1) by simp
qed

lemma hemi_vertex_step_ok:
  assumes wf: "wf_args c" and i: "0 \<le> i" "i < half_lats_n1 c"
    and j: "0 \<le> j" "j < verif_lons c"
  shows "ok (hemi_inv c (i * verif_lons c + j) nt) (hemi_vertex_step c i j)
            (hemi_inv c (i * verif_lons c + (j + 1)) nt)"
proof (rule okI)
  fix st assume inv: "hemi_inv c (i * verif_lons c + j) nt st"
  then have b: "lens c st" "caches_len c st"
    and f: "fill_inv c (verif_lons c) (i * verif_lons c + j) 0 (v_indices st)"
    and cnt: "v_hemi_offset_north st = 1 + i * verif_lons c + j"
      "v_hemi_offset_south st = idx_v_south c + i * verif_lons c + j"
      "vn_hemi_offset_south st = idx_vn_south c + i * verif_lons c + j"
      "f_hemi_offset_north st = verif_lons c + i * verif_lons c + j"
      "f_hemi_offset_south st = idx_fs_south_equat c + i * verif_lons c + j"
    and t: "vt_hemi_offset_north st = verif_lons c + nt"
      "vt_hemi_offset_south st = idx_vt_s_hemi c + nt"
    by (simp_all add: hemi_inv_def)
  from hemi_vertex_step_effect[OF wf i j b cnt] obtain s' where
    s': "hemi_vertex_step c i j st = Inr s'" "lens c s'" "caches_len c s'"
      "v_hemi_offset_north s' = v_hemi_offset_north st + 1"
      "v_hemi_offset_south s' = v_hemi_offset_south st + 1"
      "vn_hemi_offset_south s' = vn_hemi_offset_south st + 1"
      "f_hemi_offset_north s' = f_hemi_offset_north st + 1"
      "f_hemi_offset_south s' = f_hemi_offset_south st + 1"
      "vt_hemi_offset_north s' = vt_hemi_offset_north st"
      "vt_hemi_offset_south s' = vt_hemi_offset_south st"
    and v: "v_indices s' = (v_indices st)
       [nat (verif_lons c + i * verif_lons c + j)
          := v_face c (verif_lons c + i * verif_lons c + j),
        nat (idx_fs_south_equat c + i * verif_lons c + j)
          := v_face c (idx_fs_south_equat c + i * verif_lons c + j)]"
    by blast
  have "fill_inv c (verif_lons c) (i * verif_lons c + j + 1) 0 (v_indices s')"
    unfolding v add.assoc
    by (rule fill_hemi[OF wf f hemi_bound[OF wf i j] lens_v_indices[OF b(1)] refl, unfolded add.assoc])
  then show "\<exists>s'. hemi_vertex_step c i j st = Inr s' \<and> hemi_inv c (i * verif_lons c + (j + 1)) nt s'"
    using s' cnt t by (simp add: hemi_inv_def add.assoc)
qed

lemma hemi_uv_step_ok:
  assumes wf: "wf_args c" and i: "0 \<le> i" "i < half_lats_n1 c"
    and j: "0 \<le> j" "j < verif_lons_p1 c"
  shows "ok (hemi_inv c nv (i * verif_lons_p1 c + j)) (hemi_uv_step c i j)
            (hemi_inv c nv (i * verif_lons_p1 c + (j + 1)))"
proof (rule okI)
  fix st assume inv: "hemi_inv c nv (i * verif_lons_p1 c + j) st"
  then have b: "lens c st" "caches_len c st"
    and cnt: "vt_hemi_offset_north st = verif_lons c + i * verif_lons_p1 c + j"
      "vt_hemi_offset_south st = idx_vt_s_hemi c + i * verif_lons_p1 c + j"
    by (simp_all add: hemi_inv_def)
  from hemi_uv_step_effect[OF wf i j b cnt] inv
  show "\<exists>s'. hemi_uv_step c i j st = Inr s' \<and> hemi_inv c nv (i * verif_lons_p1 c + (j + 1)) s'"
    by (auto simp: hemi_inv_def)
qed

lemma hemi_step_ok:
  assumes wf: "wf_args c" and i: "0 \<le> i" "i < half_lats_n1 c"
  shows "ok (hemi_inv c (i * verif_lons c) (i * verif_lons_p1 c)) (hemi_step c i)
            (hemi_inv c ((i + 1) * verif_lons c) ((i + 1) * verif_lons_p1 c))"
proof -
  note A = wf_atoms[OF wf]
  let ?L = "verif_lons c" and ?M = "verif_lons_p1 c"
  have "ok (hemi_inv c (i * ?L + 0) (i * ?M)) (for_each (py_range 0 ?L) (hemi_vertex_step c i))
           (hemi_inv c (i * ?L + ?L) (i * ?M))"
    using A(1) by (intro ok_for[where I = "\<lambda>j. hemi_inv c (i * ?L + j) (i * ?M)"]
        hemi_vertex_step_ok[OF wf i]) simp_all
  then have l1: "ok (hemi_inv c (i * ?L) (i * ?M)) (for_each (py_range 0 ?L) (hemi_vertex_step c i))
           (hemi_inv c ((i + 1) * ?L) (i * ?M + 0))"
    by (simp add: algebra_simps)
  have "ok (hemi_inv c ((i + 1) * ?L) (i * ?M + 0)) (for_each (py_range 0 ?M) (hemi_uv_step c i))
           (hemi_inv c ((i + 1) * ?L) (i * ?M + ?M))"
    using A(1) by (intro ok_for[where I = "\<lambda>j. hemi_inv c ((i + 1) * ?L) (i * ?M + j)"]
        hemi_uv_step_ok[OF wf i]) (simp_all add: verif_lons_p1_def)
  then have l2: "ok (hemi_inv c ((i + 1) * ?L) (i * ?M + 0)) (for_each (py_range 0 ?M) (hemi_uv_step c i))
           (hemi_inv c ((i + 1) * ?L) ((i + 1) * ?M))"
    by (simp add: algebra_simps)
  show ?thesis unfolding hemi_step_def
    by (rule ok_seq[OF l1 ok_run_single[OF l2]])
qed

lemma ring_bound:
  assumes wf: "wf_args c" and m: "0 \<le> m" "m \<le> verif_rings c"
    and j: "0 \<le> j" "j < verif_lons c"
  shows "0 \<le> m * verif_lons c + j" "m * verif_lons c + j < v_lons_v_sections_p1 c"
proof -
  note A = wf_atoms[OF wf]
  have "m * verif_lons c \<le> verif_rings c * verif_lons c"
    using m A(1) by (intro mult_right_mono) simp_all
  moreover have "v_lons_v_sections_p1 c = verif_rings c * verif_lons c + verif_lons c"
    by (simp add: v_lons_v_sections_p1_def verif_rings_p1_def algebra_simps)
  ultimately show "m * verif_lons c + j < v_lons_v_sections_p1 c"
    using j by linarith
  show "0 \<le> m * verif_lons c + j" using m j A(1) by simp
qed

lemma cyl_vertex_step_ok:
  assumes wf: "wf_args c" and m: "1 \<le> m" "m \<le> verif_rings c"
    and j: "0 \<le> j" "j < verif_lons c"
  shows "ok (mid_inv c ((m - 1) * verif_lons c + j) nt) (cyl_vertex_step c m j)
            (mid_inv c ((m - 1) * verif_lons c + (j + 1)) nt)"
proof (rule okI)
  fix st assume inv: "mid_inv c ((m - 1) * verif_lons c + j) nt st"
  then have b: "lens c st" "caches_len c st"
    and cnt: "v_cyl_offset st = idx_v_cyl c + (m - 1) * verif_lons c + j"
    by (simp_all add: mid_inv_def)
  from cyl_vertex_step_effect[OF wf m j b cnt] inv
  show "\<exists>s'. cyl_vertex_step c m j st = Inr s' \<and>
      mid_inv c ((m - 1) * verif_lons c + (j + 1)) nt s'"
    by (auto simp: mid_inv_def)
qed

lemma cyl_uv_step_ok:
  assumes wf: "wf_args c" and m: "1 \<le> m" "m \<le> verif_rings c"
    and j: "0 \<le> j" "j < verif_lons_p1 c"
  shows "ok (mid_inv c nv ((m - 1) * verif_lons_p1 c + j)) (cyl_uv_step c m j)
            (mid_inv c nv ((m - 1) * verif_lons_p1 c + (j + 1)))"
proof (rule okI)
  fix st assume inv: "mid_inv c nv ((m - 1) * verif_lons_p1 c + j) st"
  then have b: "lens c st" "caches_len c st"
    and cnt: "vt_cyl_offset st = idx_vt_cyl c + (m - 1) * verif_lons_p1 c + j"
    by (simp_all add: mid_inv_def)
  from cyl_uv_step_effect[OF wf m j b cnt] inv
  show "\<exists>s'. cyl_uv_step c m j st = Inr s' \<and>
      mid_inv c nv ((m - 1) * verif_lons_p1 c + (j + 1)) s'"
    by (auto simp: mid_inv_def)
qed

lemma cyl_ring_step_ok:
  assumes wf: "wf_args c" and m: "1 \<le> m" "m \<le> verif_rings c"
  shows "ok (mid_inv c ((m - 1) * verif_lons c) ((m - 1) * verif_lons_p1 c)) (cyl_ring_step c m)
            (mid_inv c ((m + 1 - 1) * verif_lons c) ((m + 1 - 1) * verif_lons_p1 c))"
proof -
  note A = wf_atoms[OF wf]
  let ?L = "verif_lons c" and ?M = "verif_lons_p1 c"
  have "ok (mid_inv c ((m - 1) * ?L + 0) ((m - 1) * ?M))
           (for_each (py_range 0 ?L) (cyl_vertex_step c m))
           (mid_inv c ((m - 1) * ?L + ?L) ((m - 1) * ?M))"
    using A(1) by (intro ok_for[where I = "\<lambda>j. mid_inv c ((m - 1) * ?L + j) ((m - 1) * ?M)"]
        cyl_vertex_step_ok[OF wf m]) simp_all
  then have l1: "ok (mid_inv c ((m - 1) * ?L) ((m - 1) * ?M))
           (for_each (py_range 0 ?L) (cyl_vertex_step c m))
           (mid_inv c (m * ?L) ((m - 1) * ?M + 0))"
    by (simp add: algebra_simps)
  have "ok (mid_inv c (m * ?L) ((m - 1) * ?M + 0)) (for_each (py_range 0 ?M) (cyl_uv_step c m))
           (mid_inv c (m * ?L) ((m - 1) * ?M + ?M))"
    using A(1) by (intro ok_for[where I = "\<lambda>j. mid_inv c (m * ?L) ((m - 1) * ?M + j)"]
        cyl_uv_step_ok[OF wf m]) (simp_all add: verif_lons_p1_def)
  then have l2: "ok (mid_inv c (m * ?L) ((m - 1) * ?M + 0))
           (for_each (py_range 0 ?M) (cyl_uv_step c m))
           (mid_inv c ((m + 1 - 1) * ?L) ((m + 1 - 1) * ?M))"
    by (simp add: algebra_simps)
  show ?thesis unfolding cyl_ring_step_def
    by (rule ok_seq[OF l1 ok_run_single[OF l2]])
qed

lemma middle_rings_ok:
  assumes wf: "wf_args c"
  shows "ok (ready c) (middle_rings c) (ready c)"
proof (cases "calc_middle c")
  case False
  then show ?thesis by (simp add: middle_rings_def ok_def)
next
  case True
  note A = wf_atoms[OF wf]
  let ?L = "verif_lons c" and ?M = "verif_lons_p1 c"
  have loop: "ok (mid_inv c ((1 - 1) * ?L) ((1 - 1) * ?M))
      (for_each (py_range 1 (verif_rings_p1 c)) (cyl_ring_step c))
      (mid_inv c ((verif_rings_p1 c - 1) * ?L) ((verif_rings_p1 c - 1) * ?M))"
    using A(5) by (intro ok_for[where I = "\<lambda>m. mid_inv c ((m - 1) * ?L) ((m - 1) * ?M)"]
        cyl_ring_step_ok[OF wf]) (simp_all add: verif_rings_p1_def)
  show ?thesis
  proof (rule okI)
    fix st assume r: "ready c st"
    let ?s1 = "st\<lparr>v_cyl_offset := idx_v_cyl c, vt_cyl_offset := idx_vt_cyl c\<rparr>"
    have "mid_inv c ((1 - 1) * ?L) ((1 - 1) * ?M) ?s1"
      using r by (simp add: mid_inv_def ready_def lens_def caches_len_def)
    from okD[OF loop this] obtain s' where
      s': "for_each (py_range 1 (verif_rings_p1 c)) (cyl_ring_step c) ?s1 = Inr s'"
        "mid_inv c ((verif_rings_p1 c - 1) * ?L) ((verif_rings_p1 c - 1) * ?M) s'"
      by blast
    have "real_of_int (verif_rings_p1 c) \<noteq> 0" using A(5) by (simp add: verif_rings_p1_def)
    then have "middle_rings c st = Inr s'"
      using True s'(1) by (simp add: middle_rings_def check_div_def assign_def)
    moreover have "ready c s'" using s'(2) by (simp add: mid_inv_def ready_def)
    ultimately show "\<exists>s'. middle_rings c st = Inr s' \<and> ready c s'" by blast
  qed
qed

lemma cyl_face_step_ok:
  assumes wf: "wf_args c" and m: "0 \<le> m" "m \<le> verif_rings c"
    and j: "0 \<le> j" "j < verif_lons c"
  shows "ok (cyl_inv c (m * verif_lons c + j)) (cyl_face_step c m j)
            (cyl_inv c (m * verif_lons c + (j + 1)))"
proof (rule okI)
  fix st assume inv: "cyl_inv c (m * verif_lons c + j) st"
  then have b: "lens c st"
    and f: "fill_inv c (verif_lons c) (v_lons_half_lat_n1 c) (m * verif_lons c + j) (v_indices st)"
    and cnt: "f_cyl_offset st = idx_fs_cyl c + m * verif_lons c + j"
    by (simp_all add: cyl_inv_def)
  from cyl_face_step_effect[OF wf m j b cnt] obtain s' where
    s': "cyl_face_step c m j st = Inr s'" "lens c s'" "f_cyl_offset s' = f_cyl_offset st + 1"
    and v: "v_indices s' = (v_indices st)
       [nat (idx_fs_cyl c + m * verif_lons c + j)
          := v_face c (idx_fs_cyl c + m * verif_lons c + j)]"
    by blast
  have "fill_inv c (verif_lons c) (v_lons_half_lat_n1 c) (m * verif_lons c + j + 1) (v_indices s')"
    unfolding v add.assoc
    by (rule fill_cyl[OF wf f ring_bound[OF wf m j] lens_v_indices[OF b] refl, unfolded add.assoc])
  then show "\<exists>s'. cyl_face_step c m j st = Inr s' \<and> cyl_inv c (m * verif_lons c + (j + 1)) s'"
    using s' cnt by (simp add: cyl_inv_def add.assoc)
qed

lemma cyl_faces_step_ok:
  assumes wf: "wf_args c" and m: "0 \<le> m" "m \<le> verif_rings c"
  shows "ok (cyl_inv c (m * verif_lons c)) (cyl_faces_step c m)
            (cyl_inv c ((m + 1) * verif_lons c))"
proof -
  note A = wf_atoms[OF wf]
  let ?L = "verif_lons c"
  have "ok (cyl_inv c (m * ?L + 0)) (for_each (py_range 0 ?L) (cyl_face_step c m))
           (cyl_inv c (m * ?L + ?L))"
    using A(1) by (intro ok_for[where I = "\<lambda>j. cyl_inv c (m * ?L + j)"]
        cyl_face_step_ok[OF wf m]) simp_all
  then show ?thesis
    by (simp add: cyl_faces_step_def algebra_simps)
qed

lemma fill_inv_start: "fill_inv c 0 0 0 fs"
  by (simp add: fill_inv_def filled_empty)

lemma lens_allocate:
  assumes wf: "wf_args c"
  shows "lens c (allocate c)"
proof -
  note A = wf_atoms[OF wf]
  have n: "0 \<le> len_vs c" "0 < len_vts c" "0 < len_vns c" "0 \<le> len_indices c"
    using A by (simp_all add: layout[OF wf])
  show ?thesis using n by (simp add: lens_def allocate_def faces_in_def)
qed

lemma prelude_ok:
  assumes wf: "wf_args c"
  shows "ok (lens c)
     (run [set_vs 0 (0.0, 0.0, summit c),
       set_vs (idx_v_south_pole c) (0.0, 0.0, - summit c),
       set_vns 0 (0.0, 0.0, 1.0),
       set_vns (idx_vn_south_pole c) (0.0, 0.0, - 1.0),
       check_div (real_of_int (verif_lons c)),
       check_div (real_of_int (verif_lats c)),
       check_div (real_of_int (verif_lons c)),
       check_div (real_of_int (half_lats c)),
       assign (\<lambda>s. s\<lparr>sin_cos_theta_cache := replicate (nat (verif_lons c)) (0.0, 1.0)\<rparr>)])
     (pole_inv c 0)"
proof (rule okI)
  fix st assume l: "lens c st"
  note A = wf_atoms[OF wf]
  have h: "half_lats c \<noteq> 0" "verif_lats c \<noteq> 0"
    using wf_half[OF wf] by (simp_all add: half_lats_n1_def)
  show "\<exists>s'. run [set_vs 0 (0.0, 0.0, summit c),
       set_vs (idx_v_south_pole c) (0.0, 0.0, - summit c),
       set_vns 0 (0.0, 0.0, 1.0),
       set_vns (idx_vn_south_pole c) (0.0, 0.0, - 1.0),
       check_div (real_of_int (verif_lons c)),
       check_div (real_of_int (verif_lats c)),
       check_div (real_of_int (verif_lons c)),
       check_div (real_of_int (half_lats c)),
       assign (\<lambda>s. s\<lparr>sin_cos_theta_cache := replicate (nat (verif_lons c)) (0.0, 1.0)\<rparr>)] st
        = Inr s' \<and> pole_inv c 0 s'"
    using l A h unfolding lens_def pole_inv_def
    by (simp add: set_Inr layout[OF wf] check_div_def assign_def fill_inv_start)
qed

lemma pole_loop_ok:
  assumes wf: "wf_args c"
  shows "ok (pole_inv c 0) (for_each (py_range 0 (verif_lons c)) (pole_step c))
           (pole_inv c (verif_lons c))"
  using wf_atoms(1)[OF wf] by (intro ok_for pole_step_ok[OF wf]) simp_all

lemma vt_aspect_denominator_nz:
  assumes wf: "wf_args c"
  shows "vt_aspect_denominator c \<noteq> 0"
proof -
  have "0 < verif_rad c" "0 < verif_depth c" "0 < verif_rings_p1 c + verif_lats c"
    using wf by (simp_all add: wf_args_def verif_rings_p1_def)
  then show ?thesis by (simp add: vt_aspect_denominator_def)
qed

lemma equator_prelude_ok:
  assumes wf: "wf_args c"
  shows "ok (pole_inv c (verif_lons c))
     (run [assign (\<lambda>s. s\<lparr>s_tex_cache := replicate (nat (verif_lons_p1 c)) 0.5\<rparr>),
           check_div (vt_aspect_denominator c)])
     (equ_inv c)"
  using wf_atoms(1)[OF wf] vt_aspect_denominator_nz[OF wf]
  by (auto simp: ok_def pole_inv_def equ_inv_def assign_def check_div_def lens_def caches_len_def
      verif_lons_p1_def)

lemma equator_loop_ok:
  assumes wf: "wf_args c"
  shows "ok (equ_inv c) (for_each (py_range 0 (verif_lons_p1 c)) (equator_uv_step c)) (equ_inv c)"
  using wf_atoms(1)[OF wf]
  by (intro ok_for[where I = "\<lambda>j. equ_inv c"] equator_uv_step_ok[OF wf])
    (simp_all add: verif_lons_p1_def)

lemma hemi_prelude_ok:
  "ok (equ_inv c)
     (run [assign (\<lambda>s. s\<lparr>v_hemi_offset_north := 1\<rparr>),
       assign (\<lambda>s. s\<lparr>v_hemi_offset_south := idx_v_south c\<rparr>),
       assign (\<lambda>s. s\<lparr>vt_hemi_offset_north := verif_lons c\<rparr>),
       assign (\<lambda>s. s\<lparr>vt_hemi_offset_south := idx_vt_s_hemi c\<rparr>),
       assign (\<lambda>s. s\<lparr>vn_hemi_offset_south := idx_vn_south c\<rparr>),
       assign (\<lambda>s. s\<lparr>f_hemi_offset_north := verif_lons c\<rparr>),
       assign (\<lambda>s. s\<lparr>f_hemi_offset_south := idx_fs_south_equat c\<rparr>)])
     (hemi_inv c (0 * verif_lons c) (0 * verif_lons_p1 c))"
  by (simp add: ok_def equ_inv_def hemi_inv_def assign_def lens_def caches_len_def)

lemma hemi_loop_ok:
  assumes wf: "wf_args c"
  shows "ok (hemi_inv c (0 * verif_lons c) (0 * verif_lons_p1 c))
     (for_each (py_range 0 (half_lats_n1 c)) (hemi_step c))
     (ready c)"
proof -
  have "ok (hemi_inv c (0 * verif_lons c) (0 * verif_lons_p1 c))
     (for_each (py_range 0 (half_lats_n1 c)) (hemi_step c))
     (hemi_inv c (half_lats_n1 c * verif_lons c) (half_lats_n1 c * verif_lons_p1 c))"
    using wf_atoms(4)[OF wf]
    by (intro ok_for[where I = "\<lambda>i. hemi_inv c (i * verif_lons c) (i * verif_lons_p1 c)"]
        hemi_step_ok[OF wf]) simp_all
  then show ?thesis
    by (rule ok_post) (simp add: hemi_inv_def ready_def v_lons_half_lat_n1_def)
qed

lemma cyl_prelude_ok:
  "ok (ready c) (run [assign (\<lambda>s. s\<lparr>f_cyl_offset := idx_fs_cyl c\<rparr>)])
      (cyl_inv c (0 * verif_lons c))"
  by (simp add: ok_def ready_def cyl_inv_def assign_def lens_def)

lemma cyl_loop_ok:
  assumes wf: "wf_args c"
  shows "ok (cyl_inv c (0 * verif_lons c))
     (for_each (py_range 0 (verif_rings_p1 c)) (cyl_faces_step c))
     (\<lambda>st. lens c st \<and> filled c 0 (len_indices c) (v_indices st))"
proof -
  have "ok (cyl_inv c (0 * verif_lons c))
     (for_each (py_range 0 (verif_rings_p1 c)) (cyl_faces_step c))
     (cyl_inv c (verif_rings_p1 c * verif_lons c))"
    using wf_atoms(5)[OF wf]
    by (intro ok_for[where I = "\<lambda>m. cyl_inv c (m * verif_lons c)"]
        cyl_faces_step_ok[OF wf]) (simp_all add: verif_rings_p1_def)
  then show ?thesis
    by (rule ok_post)
      (simp add: cyl_inv_def fill_all[OF wf] v_lons_v_sections_p1_def[symmetric])
qed

lemma build_ok:
  assumes wf: "wf_args c"
  shows "ok (lens c) (build c) (\<lambda>st. lens c st \<and> filled c 0 (len_indices c) (v_indices st))"
proof -
  have split: "build c = run (
     [set_vs 0 (0.0, 0.0, summit c),
       set_vs (idx_v_south_pole c) (0.0, 0.0, - summit c),
       set_vns 0 (0.0, 0.0, 1.0),
       set_vns (idx_vn_south_pole c) (0.0, 0.0, - 1.0),
       check_div (real_of_int (verif_lons c)),
       check_div (real_of_int (verif_lats c)),
       check_div (real_of_int (verif_lons c)),
       check_div (real_of_int (half_lats c)),
       assign (\<lambda>s. s\<lparr>sin_cos_theta_cache := replicate (nat (verif_lons c)) (0.0, 1.0)\<rparr>)]
     @ [for_each (py_range 0 (verif_lons c)) (pole_step c)]
     @ [assign (\<lambda>s. s\<lparr>s_tex_cache := replicate (nat (verif_lons_p1 c)) 0.5\<rparr>),
           check_div (vt_aspect_denominator c)]
     @ [for_each (py_range 0 (verif_lons_p1 c)) (equator_uv_step c)]
     @ [assign (\<lambda>s. s\<lparr>v_hemi_offset_north := 1\<rparr>),
       assign (\<lambda>s. s\<lparr>v_hemi_offset_south := idx_v_south c\<rparr>),
       assign (\<lambda>s. s\<lparr>vt_hemi_offset_north := verif_lons c\<rparr>),
       assign (\<lambda>s. s\<lparr>vt_hemi_offset_south := idx_vt_s_hemi c\<rparr>),
       assign (\<lambda>s. s\<lparr>vn_hemi_offset_south := idx_vn_south c\<rparr>),
       assign (\<lambda>s. s\<lparr>f_hemi_offset_north := verif_lons c\<rparr>),
       assign (\<lambda>s. s\<lparr>f_hemi_offset_south := idx_fs_south_equat c\<rparr>)]
     @ [for_each (py_range 0 (half_lats_n1 c)) (hemi_step c)]
     @ [middle_rings c]
     @ [assign (\<lambda>s. s\<lparr>f_cyl_offset := idx_fs_cyl c\<rparr>)]
     @ [for_each (py_range 0 (verif_rings_p1 c)) (cyl_faces_step c)])"
    unfolding build_def by simp
  show ?thesis
    unfolding split
    by (intro ok_run_append[OF prelude_ok[OF wf]]
        ok_run_append[OF ok_run_single[OF pole_loop_ok[OF wf]]]
        ok_run_append[OF equator_prelude_ok[OF wf]]
        ok_run_append[OF ok_run_single[OF equator_loop_ok[OF wf]]]
        ok_run_append[OF hemi_prelude_ok]
        ok_run_append[OF ok_run_single[OF hemi_loop_ok[OF wf]]]
        ok_run_append[OF ok_run_single[OF middle_rings_ok[OF wf]]]
        ok_run_append[OF cyl_prelude_ok]
        ok_run_single[OF cyl_loop_ok[OF wf]])
qed

lemma filled_all_eq:
  assumes "filled c 0 n fs" "int (length fs) = n"
  shows "fs = map (v_face c) (py_range 0 n)"
proof (rule nth_equalityI)
  show len: "length fs = length (map (v_face c) (py_range 0 n))"
    using assms(2) by (simp add: py_range_def)
  fix i assume i: "i < length fs"
  then have "int i < n" using assms(2) by simp
  then have "fs ! nat (int i) = v_face c (int i)"
    using assms(1) unfolding filled_def by (metis of_nat_0_le_iff)
  moreover have "py_range 0 n ! i = int i"
    using i assms(2) by (simp add: py_range_def)
  ultimately show "fs ! i = map (v_face c) (py_range 0 n) ! i"
    using i len by simp
qed

text \<open>The characterisation of the result.\<close>

lemma create_capsule_data_result:
  fixes longitudes latitudes rings depth radius profile
  defines "c \<equiv> validate longitudes latitudes rings depth radius profile"
  shows "\<exists>m. create_capsule_data longitudes latitudes rings depth radius profile = Inr m \<and>
     int (length (vs m)) = len_vs c \<and> int (length (vts m)) = len_vts c \<and>
     int (length (vns m)) = len_vns c \<and>
     int (length (vt_indices m)) = len_indices c \<and>
     int (length (vn_indices m)) = len_indices c \<and>
     v_indices m = map (v_face c) (py_range 0 (len_indices c)) \<and>
     faces_in (len_vts c) (vt_indices m) \<and> faces_in (len_vns c) (vn_indices m)"
proof -
  have wf: "wf_args c" unfolding c_def by (rule wf_validate)
  from okD[OF build_ok[OF wf] lens_allocate[OF wf]] obtain st where
    st: "build c (allocate c) = Inr st" "lens c st" "filled c 0 (len_indices c) (v_indices st)"
    by blast
  have v: "v_indices st = map (v_face c) (py_range 0 (len_indices c))"
    by (rule filled_all_eq[OF st(3) lens_v_indices[OF st(2)]])
  have "create_capsule_data longitudes latitudes rings depth radius profile
      = Inr (mesh_data.truncate st)"
    using st(1) by (simp add: create_capsule_data_def c_def[symmetric] Let_def bind_err_def)
  then show ?thesis
    using st(2) v by (simp add: mesh_data.truncate_def lens_def)
qed

lemma succ_mod_neq:
  assumes "2 \<le> L" "0 \<le> j" "j < (L::int)"
  shows "(j + 1) mod L \<noteq> j"
proof (cases "j + 1 < L")
  case True
  then show ?thesis using assms by (simp add: mod_pos_pos_trivial)
next
  case False
  then have "j + 1 = L" using assms by simp
  then show ?thesis using assms by auto
qed

lemma len_closed:
  assumes wf: "wf_args c"
  shows "len_vs c = 2 + verif_lons c * (verif_lats c + verif_rings c)"
    "len_indices c = verif_lons c * (verif_lats c + verif_rings c + 1)"
    "len_vts c = 2 * verif_lons c + (verif_lons c + 1) * (verif_lats c + verif_rings c)"
    "len_vns c = 1 + verif_lons c * verif_lats c"
    "idx_vn_south_pole c = 1 + verif_lons c * (verif_lats c - 1)"
  unfolding layout[OF wf] wf_half(2)[OF wf] v_lons_half_lat_n1_def v_lons_v_sections_p1_def
    verif_rings_p1_def
  by (simp_all add: algebra_simps)

lemma v_face_valid:
  assumes wf: "wf_args c" and k: "0 \<le> k" "k < len_indices c"
  shows "distinct (v_face c k) \<and> (\<forall>i \<in> set (v_face c k). 0 \<le> i \<and> i < len_vs c)"
proof -
  note A = wf_atoms[OF wf]
  let ?L = "verif_lons c" and ?R = "verif_lats c + verif_rings c"
  define b where "b = k div ?L"
  define j where "j = k mod ?L"
  define jn where "jn = (j + 1) mod ?L"
  define B where "B = b * ?L"
  define RL where "RL = ?R * ?L"
  have j: "0 \<le> j" "j < ?L" using A(1) by (simp_all add: j_def)
  have jn: "0 \<le> jn" "jn < ?L" "jn \<noteq> j"
    using A(1) j succ_mod_neq[of ?L j] by (simp_all add: jn_def)
  have kb: "k = B + j" by (simp add: B_def b_def j_def)
  have R2: "2 \<le> ?R" using wf by (simp add: wf_args_def)
  have lenI: "len_indices c = RL + ?L" and lenV: "len_vs c = 2 + RL"
    by (simp_all add: len_closed[OF wf] RL_def algebra_simps)
  have b0: "0 \<le> b" using k(1) A(1) by (simp add: b_def pos_imp_zdiv_nonneg_iff)
  have bR: "b \<le> ?R"
  proof (rule ccontr)
    assume "\<not> b \<le> ?R"
    then have "(?R + 1) * ?L \<le> b * ?L" using A(1) by (intro mult_right_mono) simp_all
    then have "RL + ?L \<le> B" by (simp add: RL_def B_def algebra_simps)
    then show False using kb j k(2) lenI by linarith
  qed
  have "2 * ?L \<le> ?R * ?L" using R2 A(1) by (intro mult_right_mono) simp_all
  then have RL2: "2 * ?L \<le> RL" by (simp add: RL_def)
  have e: "(?R - 1) * ?L = RL - ?L" "(b - 1) * ?L = B - ?L"
    by (simp_all add: RL_def B_def algebra_simps)
  consider "b = 0" | "b = ?R" "b \<noteq> 0" | "0 < b" "b < ?R"
    using b0 bR by linarith
  then show ?thesis
  proof cases
    case 1
    then show ?thesis
      unfolding v_face_def Let_def b_def[symmetric] j_def[symmetric] jn_def[symmetric] lenV
      using j jn RL2 A(1) by simp
  next
    case 2
    then show ?thesis
      unfolding v_face_def Let_def b_def[symmetric] j_def[symmetric] jn_def[symmetric] lenV
        RL_def[symmetric] e
      using j jn RL2 A(1) by simp
  next
    case 3
    have "1 * ?L \<le> b * ?L" "b * ?L \<le> (?R - 1) * ?L"
      using 3 A(1) by (intro mult_right_mono; simp)+
    then have Bb: "?L \<le> B" "B \<le> RL - ?L" by (simp_all add: B_def e)
    from 3 show ?thesis
      unfolding v_face_def Let_def b_def[symmetric] j_def[symmetric] jn_def[symmetric] lenV
        B_def[symmetric] e
      using j jn Bb A(1) by simp
  qed
qed

lemma set_py_range: "set (py_range a b) = {a..<b}"
  by (auto simp: py_range_def)

text \<open>
  Claim C10. For every input, every index of every face of \<^verbatim>\<open>v_indices\<close>,
  \<^verbatim>\<open>vt_indices\<close> and \<^verbatim>\<open>vn_indices\<close> is a valid 0-based index into the
  vertex, texture-coordinate or normal buffer, and the indices of each vertex face
  are pairwise distinct.
\<close>

theorem builder_indices_valid:
  "\<exists>m. create_capsule_data longitudes latitudes rings depth radius profile = Inr m \<and>
     (\<forall>f \<in> set (v_indices m).
        distinct f \<and> (\<forall>i \<in> set f. 0 \<le> i \<and> i < int (length (vs m)))) \<and>
     (\<forall>f \<in> set (vt_indices m). \<forall>i \<in> set f. 0 \<le> i \<and> i < int (length (vts m))) \<and>
     (\<forall>f \<in> set (vn_indices m). \<forall>i \<in> set f. 0 \<le> i \<and> i < int (length (vns m)))"
proof -
  define c where "c = validate longitudes latitudes rings depth radius profile"
  have wf: "wf_args c" unfolding c_def by (rule wf_validate)
  from create_capsule_data_result[of longitudes latitudes rings depth radius profile]
  obtain m where m: "create_capsule_data longitudes latitudes rings depth radius profile = Inr m"
    "int (length (vs m)) = len_vs c" "int (length (vts m)) = len_vts c"
    "int (length (vns m)) = len_vns c"
    "v_indices m = map (v_face c) (py_range 0 (len_indices c))"
    "faces_in (len_vts c) (vt_indices m)" "faces_in (len_vns c) (vn_indices m)"
    unfolding c_def by blast
  have "\<forall>f \<in> set (v_indices m). distinct f \<and> (\<forall>i \<in> set f. 0 \<le> i \<and> i < int (length (vs m)))"
    unfolding m(5) m(2) using v_face_valid[OF wf] by (auto simp: set_py_range)
  moreover have "\<forall>f \<in> set (vt_indices m). \<forall>i \<in> set f. 0 \<le> i \<and> i < int (length (vts m))"
    using m(6) unfolding faces_in_def m(3) .
  moreover have "\<forall>f \<in> set (vn_indices m). \<forall>i \<in> set f. 0 \<le> i \<and> i < int (length (vns m))"
    using m(7) unfolding faces_in_def m(4) .
  ultimately show ?thesis
    using m(1) by (intro exI[of _ m] conjI)
qed





text \<open>
  Claim C1. With \<open>L\<close>, \<open>lat\<close>, \<open>r\<close> the clamped arguments, the builder returns
  \<open>2 + L * (lat + r)\<close> vertices, \<open>L * (lat + r + 1)\<close> faces in each of the three index
  lists and \<open>2 * L + (L + 1) * (lat + r)\<close> texture coordinates, as claimed. The normal
  buffer has \<open>1 + L * lat\<close> entries: \<open>L - 1\<close> more than the \<open>2 + L * (lat - 1)\<close> of
  the claim, all of them past the south pole normal at the last precomputed offset
  \<^verbatim>\<open>idx_vn_south_pole\<close> (the source adds \<^verbatim>\<open>verif_lons\<close> to that offset where the
  vertex buffer adds 1).
\<close>

theorem builder_buffer_lengths:
  "\<exists>m. create_capsule_data longitudes latitudes rings depth radius profile = Inr m \<and>
     (let c = validate longitudes latitudes rings depth radius profile;
          L = verif_lons c; lat = verif_lats c; r = verif_rings c
      in int (length (vs m)) = 2 + L * (lat + r) \<and>
         int (length (v_indices m)) = L * (lat + r + 1) \<and>
         int (length (vt_indices m)) = L * (lat + r + 1) \<and>
         int (length (vn_indices m)) = L * (lat + r + 1) \<and>
         int (length (vts m)) = 2 * L + (L + 1) * (lat + r) \<and>
         int (length (vns m)) = 1 + L * lat \<and>
         int (length (vns m)) = 2 + L * (lat - 1) + (L - 1) \<and>
         idx_vn_south_pole c + 1 < int (length (vns m)))"
proof -
  define c where "c = validate longitudes latitudes rings depth radius profile"
  have wf: "wf_args c" unfolding c_def by (rule wf_validate)
  note A = wf_atoms[OF wf]
  from create_capsule_data_result[of longitudes latitudes rings depth radius profile]
  obtain m where m: "create_capsule_data longitudes latitudes rings depth radius profile = Inr m"
    "int (length (vs m)) = len_vs c" "int (length (vts m)) = len_vts c"
    "int (length (vns m)) = len_vns c"
    "int (length (vt_indices m)) = len_indices c" "int (length (vn_indices m)) = len_indices c"
    "v_indices m = map (v_face c) (py_range 0 (len_indices c))"
    unfolding c_def by blast
  have n: "0 \<le> len_indices c" using A by (simp add: layout[OF wf])
  have v: "int (length (v_indices m)) = len_indices c"
    unfolding m(7) using n by (simp add: py_range_def)
  have p: "idx_vn_south_pole c + 1 < len_vns c" using A by (simp add: layout[OF wf])
  show ?thesis
    using m(1-6) v p A(1) unfolding c_def[symmetric] Let_def len_closed[OF wf]
    by (simp add: algebra_simps)
qed

lemmas offs_defs = calc_middle_def half_lats_def half_lats_n1_def half_lats_n2_def verif_rings_p1_def verif_lons_p1_def
  v_lons_half_lat_n1_def v_lons_v_sections_p1_def idx_v_n_equator_def idx_v_cyl_def idx_v_s_equator_def idx_v_south_def
  idx_v_south_cap_def idx_v_south_pole_def idx_vt_n_equator_def idx_vt_cyl_def idx_vt_s_equator_def idx_vt_s_hemi_def
  idx_vt_s_polar_def idx_vt_s_cap_def idx_vn_south_def idx_vn_south_cap_def idx_vn_south_pole_def idx_fs_cyl_def
  idx_fs_south_equat_def idx_fs_south_hemi_def len_vs_def len_vts_def len_vns_def len_indices_def

lemmas set_defs = set_vs_def set_vts_def set_vns_def set_v_indices_def set_vt_indices_def set_vn_indices_def
  set_sin_cos_theta_cache_def set_s_tex_cache_def py_set_def py_get_def py_index_def bind_err_def assign_def check_div_def

lemma cos_3pi_2: "cos (3 * pi / 2) = 0"
  using cos_3over2_pi by (simp add: mult.commute)

lemma sin_3pi_2: "sin (3 * pi / 2) = - 1"
  using sin_3over2_pi by (simp add: mult.commute)

lemma capsule_4_2_0:
  "\<exists>m. create_capsule_data 4 2 0 1.0 0.5 ''FIXED'' = Inr m \<and>
     length (vs m) = 10 \<and> length (vts m) = 18 \<and> length (vns m) = 9 \<and>
     vs m = [(0, 0, 1), (0.5, 0, 0.5), (0, 0.5, 0.5), (- 0.5, 0, 0.5), (0, - 0.5, 0.5),
       (0.5, 0, - 0.5), (0, 0.5, - 0.5), (- 0.5, 0, - 0.5), (0, - 0.5, - 0.5), (0, 0, - 1)] \<and>
     v_indices m = [[0, 1, 2], [0, 2, 3], [0, 3, 4], [0, 4, 1],
       [1, 5, 6, 2], [2, 6, 7, 3], [3, 7, 8, 4], [4, 8, 5, 1],
       [9, 6, 5], [9, 7, 6], [9, 8, 7], [9, 5, 8]]"
  apply (simp add: create_capsule_data_def validate_def allocate_def build_def offs_defs Let_def)
  apply (simp add: py_range_def upto_rec1 pole_step_def equator_uv_step_def hemi_step_def middle_rings_def cyl_faces_step_def cyl_face_step_def offs_defs Let_def set_defs
     vt_aspect_denominator_def mesh_data.truncate_def summit_def half_depth_def to_theta_def
     cos_3pi_2 sin_3pi_2)
  apply code_simp
  done

text \<open>
  Claim C2. With longitudes 4, latitudes 2, rings 0, depth 1.0 and radius 0.5 the
  builder returns exactly 10 vertices: the north pole at \<open>(0, 0, 1)\<close>, the summit
  being 1, the four vertices of the north equator at height 0.5, the four of the
  south equator at height \<open>-0.5\<close>, each ring at radius 0.5 and at the angles
  \<open>j * tau / 4\<close>, and the south pole at \<open>(0, 0, -1)\<close>. It returns exactly 12
  faces: the four triangles of the north fan around vertex 0, the four quads of
  the cylinder between the two equators, and the four triangles of the south fan
  around vertex 9. Over the reals the sines and cosines of these angles are 0, 1
  and \<open>-1\<close>, which gives the coordinates of the second list.
\<close>

theorem builder_concrete_scenario:
  "\<exists>m. create_capsule_data 4 2 0 1.0 0.5 ''FIXED'' = Inr m \<and>
     length (vs m) = 10 \<and> length (v_indices m) = 12 \<and>
     map length (v_indices m) = [3, 3, 3, 3, 4, 4, 4, 4, 3, 3, 3, 3] \<and>
     vs m ! 0 = (0, 0, 1.0) \<and> vs m ! 9 = (0, 0, - 1.0) \<and>
     summit (validate 4 2 0 1.0 0.5 ''FIXED'') = 1.0 \<and>
     vs m = [(0, 0, 1.0)]
       @ map (\<lambda>j. (0.5 * cos (j * (2 * pi / 4)), 0.5 * sin (j * (2 * pi / 4)), 0.5)) [0, 1, 2, 3]
       @ map (\<lambda>j. (0.5 * cos (j * (2 * pi / 4)), 0.5 * sin (j * (2 * pi / 4)), - 0.5)) [0, 1, 2, 3]
       @ [(0, 0, - 1.0)] \<and>
     vs m = [(0, 0, 1), (0.5, 0, 0.5), (0, 0.5, 0.5), (- 0.5, 0, 0.5), (0, - 0.5, 0.5),
       (0.5, 0, - 0.5), (0, 0.5, - 0.5), (- 0.5, 0, - 0.5), (0, - 0.5, - 0.5), (0, 0, - 1)] \<and>
     v_indices m = [[0, 1, 2], [0, 2, 3], [0, 3, 4], [0, 4, 1],
       [1, 5, 6, 2], [2, 6, 7, 3], [3, 7, 8, 4], [4, 8, 5, 1],
       [9, 6, 5], [9, 7, 6], [9, 8, 7], [9, 5, 8]]"
proof -
  from capsule_4_2_0 obtain m where m: "create_capsule_data 4 2 0 1.0 0.5 ''FIXED'' = Inr m"
     "vs m = [(0, 0, 1), (0.5, 0, 0.5), (0, 0.5, 0.5), (- 0.5, 0, 0.5), (0, - 0.5, 0.5),
       (0.5, 0, - 0.5), (0, 0.5, - 0.5), (- 0.5, 0, - 0.5), (0, - 0.5, - 0.5), (0, 0, - 1)]"
     "v_indices m = [[0, 1, 2], [0, 2, 3], [0, 3, 4], [0, 4, 1],
       [1, 5, 6, 2], [2, 6, 7, 3], [3, 7, 8, 4], [4, 8, 5, 1],
       [9, 6, 5], [9, 7, 6], [9, 8, 7], [9, 5, 8]]"
    by blast
  have "summit (validate 4 2 0 1.0 0.5 ''FIXED'') = 1.0"
    by (simp add: summit_def half_depth_def validate_def)
  then show ?thesis using m by (intro exI[of _ m]) (simp add: cos_3pi_2 sin_3pi_2)
qed

theorem builder_indices_valid_witness:
  "\<exists>m. create_capsule_data 4 2 0 1.0 0.5 ''FIXED'' = Inr m \<and>
     [1, 5, 6, 2] \<in> set (v_indices m) \<and> distinct [1, 5, 6, 2 :: int] \<and>
     (1 :: int) < int (length (vs m)) \<and> 5 < int (length (vs m)) \<and>
     6 < int (length (vs m)) \<and> 2 < int (length (vs m))"
proof -
  from capsule_4_2_0 obtain m where m: "create_capsule_data 4 2 0 1.0 0.5 ''FIXED'' = Inr m"
     "v_indices m = [[0, 1, 2], [0, 2, 3], [0, 3, 4], [0, 4, 1],
       [1, 5, 6, 2], [2, 6, 7, 3], [3, 7, 8, 4], [4, 8, 5, 1],
       [9, 6, 5], [9, 7, 6], [9, 8, 7], [9, 5, 8]]"
    by blast
  have mem: "[1, 5, 6, 2] \<in> set (v_indices m)" unfolding m(2) by simp
  from builder_indices_valid[of 4 2 0 "1.0" "0.5" "''FIXED''"] m(1) mem
  have "distinct [1, 5, 6, 2 :: int] \<and>
    (\<forall>i \<in> set [1, 5, 6, 2 :: int]. 0 \<le> i \<and> i < int (length (vs m)))"
    by auto
  then show ?thesis using m(1) mem by (intro exI[of _ m]) simp
qed

lemma succ_mod_facts:
  assumes L: "3 \<le> (L::int)" and j: "0 \<le> j" "j < L" and j': "0 \<le> j'" "j' < L"
  shows "(j + 1) mod L \<noteq> j"
    "(j + 1) mod L = (j' + 1) mod L \<Longrightarrow> j = j'"
    "\<not> ((j + 1) mod L = j' \<and> (j' + 1) mod L = j)"
proof -
  have r: "\<And>i. 0 \<le> i \<Longrightarrow> i < L \<Longrightarrow> (i + 1) mod L = (if i + 1 < L then i + 1 else 0)"
  proof -
    fix i :: int assume i: "0 \<le> i" "i < L"
    show "(i + 1) mod L = (if i + 1 < L then i + 1 else 0)"
    proof (cases "i + 1 < L")
      case True
      then show ?thesis using i by (simp add: mod_pos_pos_trivial)
    next
      case False
      then have "i + 1 = L" using i by simp
      then show ?thesis by simp
    qed
  qed
  note a = r[OF j] and b = r[OF j']
  show "(j + 1) mod L \<noteq> j" unfolding a using L j by auto
  show "(j + 1) mod L = (j' + 1) mod L \<Longrightarrow> j = j'" unfolding a b using j j' by (auto split: if_splits)
  show "\<not> ((j + 1) mod L = j' \<and> (j' + 1) mod L = j)" unfolding a b using L j j' by (auto split: if_splits)
qed

lemma v_face_enc:
  "v_face c k = map (enc c) (aface c (k div verif_lons c) (k mod verif_lons c))"
  by (simp add: v_face_def aface_def enc_def Let_def)

lemma face_edges_map: "face_edges (map (enc c) f) = map (map_prod (enc c) (enc c)) (aedges f)"
  by (simp add: face_edges_def aedges_def rotate1_map zip_map_map map_prod_def)

lemma aface_unique:
  assumes wf: "wf_args c"
    and b: "0 \<le> b" "b \<le> verif_lats c + verif_rings c" and j: "0 \<le> j" "j < verif_lons c"
    and b': "0 \<le> b'" "b' \<le> verif_lats c + verif_rings c" and j': "0 \<le> j'" "j' < verif_lons c"
    and e: "e \<in> set (aedges (aface c b j))" "e \<in> set (aedges (aface c b' j'))"
  shows "b = b' \<and> j = j'"
proof -
  note A = wf_atoms[OF wf]
  have R2: "2 \<le> verif_lats c + verif_rings c" using wf by (simp add: wf_args_def)
  define jn where "jn = (j + 1) mod verif_lons c"
  define jn' where "jn' = (j' + 1) mod verif_lons c"
  have s: "jn \<noteq> j" "jn' \<noteq> j'" "jn = jn' \<Longrightarrow> j = j'"
    "\<not> (jn = j' \<and> jn' = j)"
    unfolding jn_def jn'_def
    using succ_mod_facts[OF A(1) j j'] succ_mod_facts(1)[OF A(1) j' j] by blast+
  show ?thesis
    using e b b' R2 s
    unfolding aface_def Let_def aedges_def jn_def[symmetric] jn'_def[symmetric]
    by (auto split: if_splits)
qed

lemma ring_enc_eq:
  assumes "0 \<le> j" "j < L" "0 \<le> j'" "j' < L" "t * L + j = t' * L + (j'::int)"
  shows "t = t' \<and> j = j'"
proof -
  have "(t * L + j) div L = t" "(t * L + j) mod L = j"
    using band_div_mod[OF assms(1,2) refl] by simp_all
  moreover have "(t' * L + j') div L = t'" "(t' * L + j') mod L = j'"
    using band_div_mod[OF assms(3,4) refl] by simp_all
  ultimately show ?thesis using assms(5) by simp
qed

lemma ring_enc_bounds:
  assumes "3 \<le> (L::int)" "0 \<le> t" "t < R" "0 \<le> j" "j < L"
  shows "0 \<le> t * L + j" "t * L + j < R * L"
proof -
  show "0 \<le> t * L + j" using assms by simp
  have "t * L \<le> (R - 1) * L" using assms by (intro mult_right_mono) simp_all
  then show "t * L + j < R * L" using assms by (simp add: algebra_simps)
qed

lemma enc_inj:
  assumes wf: "wf_args c" and v: "vvalid c x" "vvalid c y" and e: "enc c x = enc c y"
  shows "x = y"
proof -
  note A = wf_atoms[OF wf]
  let ?L = "verif_lons c" and ?R = "verif_lats c + verif_rings c"
  have R2: "2 \<le> ?R" using wf by (simp add: wf_args_def)
  have RL: "0 \<le> ?R * ?L" using R2 A(1) by simp
  have ring: "\<And>t j. vvalid c (Ring t j) \<Longrightarrow>
      0 \<le> t * ?L + j \<and> t * ?L + j < ?R * ?L \<and> 0 \<le> j \<and> j < ?L"
    using ring_enc_bounds[OF A(1)] by (simp add: vvalid_def)
  show ?thesis
  proof (cases x)
    case NP
    show ?thesis
    proof (cases y)
      case (Ring t j)
      from ring[OF v(2)[unfolded Ring]] e show ?thesis unfolding NP Ring enc_def by simp
    next
      case SP
      with e RL show ?thesis unfolding NP enc_def by simp
    qed (simp add: NP)
  next
    case SP
    show ?thesis
    proof (cases y)
      case (Ring t j)
      from ring[OF v(2)[unfolded Ring]] e show ?thesis unfolding SP Ring enc_def by simp
    next
      case NP
      with e RL show ?thesis unfolding SP enc_def by simp
    qed (simp add: SP)
  next
    case (Ring t j)
    note rx = ring[OF v(1)[unfolded Ring]]
    show ?thesis
    proof (cases y)
      case NP
      with e rx show ?thesis unfolding Ring enc_def by simp
    next
      case SP
      with e rx show ?thesis unfolding Ring enc_def by simp
    next
      case (Ring t' j')
      note ry = ring[OF v(2)[unfolded Ring]]
      have "t * ?L + j = t' * ?L + j'" using e unfolding \<open>x = Ring t j\<close> Ring enc_def by simp
      from ring_enc_eq[OF _ _ _ _ this] rx ry show ?thesis
        unfolding \<open>x = Ring t j\<close> Ring by simp
    qed
  qed
qed

lemma aface_valid:
  assumes wf: "wf_args c"
    and b: "0 \<le> b" "b \<le> verif_lats c + verif_rings c" and j: "0 \<le> j" "j < verif_lons c"
    and v: "v \<in> set (aface c b j)"
  shows "vvalid c v"
proof -
  note A = wf_atoms[OF wf]
  have R2: "2 \<le> verif_lats c + verif_rings c" using wf by (simp add: wf_args_def)
  define jn where "jn = (j + 1) mod verif_lons c"
  have jn: "0 \<le> jn" "jn < verif_lons c" using A(1) by (simp_all add: jn_def)
  show ?thesis
    using v b j jn R2 unfolding aface_def Let_def jn_def[symmetric]
    by (auto simp: vvalid_def split: if_splits)
qed

lemma aedges_verts:
  assumes "(x, y) \<in> set (aedges f)"
  shows "x \<in> set f \<and> y \<in> set f"
proof -
  from assms have "x \<in> set f" "y \<in> set (rotate1 f)"
    unfolding aedges_def by (auto dest: set_zip_leftD set_zip_rightD)
  then show ?thesis by simp
qed

lemma aedges_aface:
  "aedges (aface c b j) =
     (let L = verif_lons c;
          R = verif_lats c + verif_rings c;
          jn = (j + 1) mod L
      in if b = 0 then [(NP, Ring 0 j), (Ring 0 j, Ring 0 jn), (Ring 0 jn, NP)]
         else if b = R then
           [(SP, Ring (R - 1) jn), (Ring (R - 1) jn, Ring (R - 1) j), (Ring (R - 1) j, SP)]
         else [(Ring (b - 1) j, Ring b j), (Ring b j, Ring b jn),
               (Ring b jn, Ring (b - 1) jn), (Ring (b - 1) jn, Ring (b - 1) j)])"
  by (simp add: aface_def aedges_def Let_def)

lemma aface_reverse:
  assumes wf: "wf_args c"
    and b: "0 \<le> b" "b \<le> verif_lats c + verif_rings c"
    and pj: "(pj + 1) mod verif_lons c = j"
    and e: "(x, y) \<in> set (aedges (aface c b j))"
  shows "(y, x) \<in> set (aedges (aface c b pj)) \<or>
     (y, x) \<in> set (aedges (aface c b ((j + 1) mod verif_lons c))) \<or>
     (b < verif_lats c + verif_rings c \<and> (y, x) \<in> set (aedges (aface c (b + 1) j))) \<or>
     (0 < b \<and> (y, x) \<in> set (aedges (aface c (b - 1) j)))"
proof -
  let ?R = "verif_lats c + verif_rings c"
  have R2: "2 \<le> ?R" using wf by (simp add: wf_args_def)
  consider "b = 0" | "b = ?R" | "0 < b" "b < ?R" using b by linarith
  then show ?thesis
  proof cases
    case 1
    have n: "b + 1 \<noteq> 0" "b + 1 \<noteq> ?R" using 1 R2 by simp_all
    from e consider "x = NP" "y = Ring 0 j"
      | "x = Ring 0 j" "y = Ring 0 ((j + 1) mod verif_lons c)"
      | "x = Ring 0 ((j + 1) mod verif_lons c)" "y = NP"
      unfolding aedges_aface Let_def 1 by auto
    then show ?thesis
    proof cases
      case 1
      then show ?thesis unfolding aedges_aface Let_def \<open>b = 0\<close> pj by simp
    next
      case 2
      then show ?thesis using R2 unfolding aedges_aface Let_def \<open>b = 0\<close> by simp
    next
      case 3
      then show ?thesis unfolding aedges_aface Let_def \<open>b = 0\<close> by simp
    qed
  next
    case 2
    have n: "b \<noteq> 0" "b - 1 \<noteq> 0" "b - 1 \<noteq> ?R" "0 < b" using 2 R2 by simp_all
    from e n consider "x = SP" "y = Ring (b - 1) ((j + 1) mod verif_lons c)"
      | "x = Ring (b - 1) ((j + 1) mod verif_lons c)" "y = Ring (b - 1) j"
      | "x = Ring (b - 1) j" "y = SP"
      unfolding aedges_aface Let_def 2[symmetric] by auto
    then show ?thesis
    proof cases
      case 1
      then show ?thesis using n unfolding aedges_aface Let_def 2[symmetric] by simp
    next
      case 2
      then show ?thesis using n unfolding aedges_aface Let_def \<open>b = ?R\<close>[symmetric] by simp
    next
      case 3
      then show ?thesis using n unfolding aedges_aface Let_def \<open>b = ?R\<close>[symmetric] pj by simp
    qed
  next
    case 3
    have n: "b \<noteq> 0" "b \<noteq> ?R" "b + 1 \<noteq> 0" "b - 1 \<noteq> ?R" using 3 by simp_all
    from e n consider "x = Ring (b - 1) j" "y = Ring b j"
      | "x = Ring b j" "y = Ring b ((j + 1) mod verif_lons c)"
      | "x = Ring b ((j + 1) mod verif_lons c)" "y = Ring (b - 1) ((j + 1) mod verif_lons c)"
      | "x = Ring (b - 1) ((j + 1) mod verif_lons c)" "y = Ring (b - 1) j"
      unfolding aedges_aface Let_def by auto
    then show ?thesis
    proof cases
      case 1
      then show ?thesis using n unfolding aedges_aface Let_def pj by simp
    next
      case 2
      then show ?thesis using n 3 unfolding aedges_aface Let_def
        by (cases "b + 1 = ?R") simp_all
    next
      case 3
      then show ?thesis using n unfolding aedges_aface Let_def by simp
    next
      case 4
      then show ?thesis using n 3 unfolding aedges_aface Let_def
        by (cases "b - 1 = 0") simp_all
    qed
  qed
qed

lemma idx_decode:
  assumes wf: "wf_args c" and k: "0 \<le> k" "k < len_indices c"
  shows "0 \<le> k div verif_lons c" "k div verif_lons c \<le> verif_lats c + verif_rings c"
    "0 \<le> k mod verif_lons c" "k mod verif_lons c < verif_lons c"
proof -
  note A = wf_atoms[OF wf]
  let ?L = "verif_lons c" and ?R = "verif_lats c + verif_rings c"
  show j: "0 \<le> k mod ?L" "k mod ?L < ?L" using A(1) by simp_all
  show "0 \<le> k div ?L" using k(1) A(1) by (simp add: pos_imp_zdiv_nonneg_iff)
  show "k div ?L \<le> ?R"
  proof (rule ccontr)
    assume "\<not> k div ?L \<le> ?R"
    then have "(?R + 1) * ?L \<le> (k div ?L) * ?L" using A(1) by (intro mult_right_mono) simp_all
    moreover have "k = (k div ?L) * ?L + k mod ?L" by simp
    moreover have "len_indices c = (?R + 1) * ?L"
      by (simp add: len_closed[OF wf] algebra_simps)
    ultimately show False using j k(2) by linarith
  qed
qed

lemma idx_encode:
  assumes wf: "wf_args c"
    and b: "0 \<le> b" "b \<le> verif_lats c + verif_rings c" and j: "0 \<le> j" "j < verif_lons c"
  shows "0 \<le> b * verif_lons c + j" "b * verif_lons c + j < len_indices c"
    "(b * verif_lons c + j) div verif_lons c = b" "(b * verif_lons c + j) mod verif_lons c = j"
proof -
  note A = wf_atoms[OF wf]
  let ?L = "verif_lons c" and ?R = "verif_lats c + verif_rings c"
  show "0 \<le> b * ?L + j" using b j A(1) by simp
  have "b * ?L \<le> ?R * ?L" using b A(1) by (intro mult_right_mono) simp_all
  moreover have "len_indices c = ?R * ?L + ?L"
    by (simp add: len_closed[OF wf] algebra_simps)
  ultimately show "b * ?L + j < len_indices c" using j by linarith
  show "(b * ?L + j) div ?L = b" "(b * ?L + j) mod ?L = j"
    using band_div_mod[OF j refl] by simp_all
qed

lemma face_unique:
  assumes wf: "wf_args c" and k: "0 \<le> k" "k < len_indices c"
    and k': "0 \<le> k'" "k' < len_indices c"
    and e: "e \<in> set (aedges (aface c (k div verif_lons c) (k mod verif_lons c)))"
      "e \<in> set (aedges (aface c (k' div verif_lons c) (k' mod verif_lons c)))"
  shows "k = k'"
proof -
  let ?L = "verif_lons c"
  from aface_unique[OF wf idx_decode[OF wf k] idx_decode[OF wf k'] e]
  have "k div ?L = k' div ?L" "k mod ?L = k' mod ?L" by simp_all
  then have "(k div ?L) * ?L + k mod ?L = (k' div ?L) * ?L + k' mod ?L" by simp
  then show ?thesis by simp
qed

lemma face_reverse:
  assumes wf: "wf_args c" and k: "0 \<le> k" "k < len_indices c"
    and e: "(x, y) \<in> set (aedges (aface c (k div verif_lons c) (k mod verif_lons c)))"
  shows "\<exists>k'. 0 \<le> k' \<and> k' < len_indices c \<and> k' \<noteq> k \<and>
     (y, x) \<in> set (aedges (aface c (k' div verif_lons c) (k' mod verif_lons c)))"
proof -
  note A = wf_atoms[OF wf]
  let ?L = "verif_lons c" and ?R = "verif_lats c + verif_rings c"
  define b where "b = k div ?L"
  define j where "j = k mod ?L"
  define jn where "jn = (j + 1) mod ?L"
  define pj where "pj = (if j = 0 then ?L - 1 else j - 1)"
  note d = idx_decode[OF wf k, folded b_def j_def]
  have kb: "k = b * ?L + j" by (simp add: b_def j_def)
  have jn: "0 \<le> jn" "jn < ?L" "jn \<noteq> j"
    using A(1) succ_mod_facts(1)[OF A(1) d(3,4) d(3,4)] by (simp_all add: jn_def)
  have pj: "0 \<le> pj" "pj < ?L" "pj \<noteq> j" using d A(1) by (auto simp: pj_def)
  have pjs: "(pj + 1) mod ?L = j" using d A(1) by (auto simp: pj_def mod_pos_pos_trivial)
  have found: "\<exists>k'. 0 \<le> k' \<and> k' < len_indices c \<and> k' \<noteq> k \<and>
     (y, x) \<in> set (aedges (aface c (k' div verif_lons c) (k' mod verif_lons c)))"
    if h: "0 \<le> b'" "b' \<le> ?R" "0 \<le> j'" "j' < ?L" "(b', j') \<noteq> (b, j)"
      "(y, x) \<in> set (aedges (aface c b' j'))" for b' j'
  proof -
    note en = idx_encode[OF wf h(1-4)]
    have "b' * ?L + j' \<noteq> k"
    proof
      assume "b' * ?L + j' = k"
      then have "b' = b" "j' = j" using en(3,4) by (simp_all add: b_def j_def)
      then show False using h(5) by simp
    qed
    then show ?thesis using en h(6)
      by (intro exI[of _ "b' * ?L + j'"]) simp
  qed
  from aface_reverse[OF wf d(1,2) pjs e[folded b_def j_def]]
  consider "(y, x) \<in> set (aedges (aface c b pj))"
    | "(y, x) \<in> set (aedges (aface c b jn))"
    | "b < ?R" "(y, x) \<in> set (aedges (aface c (b + 1) j))"
    | "0 < b" "(y, x) \<in> set (aedges (aface c (b - 1) j))"
    unfolding jn_def by blast
  then show ?thesis
  proof cases
    case 1
    then show ?thesis using d pj by (intro found[of b pj]) simp_all
  next
    case 2
    then show ?thesis using d jn by (intro found[of b jn]) simp_all
  next
    case 3
    then show ?thesis using d by (intro found[of "b + 1" j]) simp_all
  next
    case 4
    then show ?thesis using d by (intro found[of "b - 1" j]) simp_all
  qed
qed

lemma face_edges_enc:
  assumes wf: "wf_args c" and k: "0 \<le> k" "k < len_indices c"
    and v: "vvalid c x" "vvalid c y"
  shows "(enc c x, enc c y) \<in> set (face_edges (v_face c k)) \<longleftrightarrow>
     (x, y) \<in> set (aedges (aface c (k div verif_lons c) (k mod verif_lons c)))"
proof
  let ?f = "aface c (k div verif_lons c) (k mod verif_lons c)"
  assume "(enc c x, enc c y) \<in> set (face_edges (v_face c k))"
  then obtain x' y' where xy: "(x', y') \<in> set (aedges ?f)" "enc c x' = enc c x" "enc c y' = enc c y"
    unfolding v_face_enc face_edges_map by auto
  from aedges_verts[OF xy(1)] have "vvalid c x'" "vvalid c y'"
    using aface_valid[OF wf idx_decode[OF wf k]] by blast+
  then have "x' = x" "y' = y" using enc_inj[OF wf _ _ xy(2)] enc_inj[OF wf _ _ xy(3)] v by blast+
  then show "(x, y) \<in> set (aedges ?f)" using xy(1) by simp
next
  let ?f = "aface c (k div verif_lons c) (k mod verif_lons c)"
  assume "(x, y) \<in> set (aedges ?f)"
  then show "(enc c x, enc c y) \<in> set (face_edges (v_face c k))"
    unfolding v_face_enc face_edges_map by force
qed

lemma count_faces:
  "length (filter P (map F (py_range 0 n))) = card {k. 0 \<le> k \<and> k < n \<and> P (F k)}"
proof -
  have "length (filter P (map F (py_range 0 n))) = length (filter (P \<circ> F) (py_range 0 n))"
    by (simp add: filter_map)
  also have "\<dots> = card ({k. (P \<circ> F) k} \<inter> set (py_range 0 n))"
    by (rule distinct_length_filter) (simp add: py_range_def)
  also have "{k. (P \<circ> F) k} \<inter> set (py_range 0 n) = {k. 0 \<le> k \<and> k < n \<and> P (F k)}"
    by (auto simp: set_py_range)
  finally show ?thesis .
qed

lemma closed_core:
  assumes wf: "wf_args c" and k: "0 \<le> k" "k < len_indices c"
    and e: "(a, b) \<in> set (face_edges (v_face c k))"
    and fs: "fs = map (v_face c) (py_range 0 (len_indices c))"
  shows "edge_faces fs a b = 2 \<and> edge_uses fs (a, b) = 1 \<and> edge_uses fs (b, a) = 1"
proof -
  let ?L = "verif_lons c" and ?N = "len_indices c"
  let ?E = "\<lambda>k. set (aedges (aface c (k div ?L) (k mod ?L)))"
  from e obtain x y where xy: "(x, y) \<in> ?E k" "a = enc c x" "b = enc c y"
    unfolding v_face_enc face_edges_map by auto
  from aedges_verts[OF xy(1)] have v: "vvalid c x" "vvalid c y"
    using aface_valid[OF wf idx_decode[OF wf k]] by blast+
  from face_reverse[OF wf k xy(1)] obtain k1 where
    k1: "0 \<le> k1" "k1 < ?N" "k1 \<noteq> k" "(y, x) \<in> ?E k1"
    by blast
  have fwd: "(a, b) \<in> set (face_edges (v_face c k')) \<longleftrightarrow> k' = k"
    if "0 \<le> k'" "k' < ?N" for k'
    unfolding xy(2,3) face_edges_enc[OF wf that v]
    using face_unique[OF wf that k _ xy(1)] xy(1) by blast
  have bwd: "(b, a) \<in> set (face_edges (v_face c k')) \<longleftrightarrow> k' = k1"
    if "0 \<le> k'" "k' < ?N" for k'
    unfolding xy(2,3) face_edges_enc[OF wf that v(2,1)]
    using face_unique[OF wf that k1(1,2) _ k1(4)] k1(4) by blast
  have S1: "{k'. 0 \<le> k' \<and> k' < ?N \<and> (a, b) \<in> set (face_edges (v_face c k'))} = {k}"
    using fwd k by auto
  have S2: "{k'. 0 \<le> k' \<and> k' < ?N \<and> (b, a) \<in> set (face_edges (v_face c k'))} = {k1}"
    using bwd k1(1,2) by auto
  have S12: "{k'. 0 \<le> k' \<and> k' < ?N \<and>
       ((a, b) \<in> set (face_edges (v_face c k')) \<or> (b, a) \<in> set (face_edges (v_face c k')))}
     = {k, k1}"
    using fwd bwd k k1(1,2) by auto
  have "edge_uses fs (a, b) = 1"
    unfolding edge_uses_def fs count_faces S1 by simp
  moreover have "edge_uses fs (b, a) = 1"
    unfolding edge_uses_def fs count_faces S2 by simp
  moreover have "edge_faces fs a b = 2"
    unfolding edge_faces_def fs count_faces S12 using k1(3) by simp
  ultimately show ?thesis by simp
qed

text \<open>
  Claim C3. For every input, the vertex face list describes a closed, consistently
  wound surface: every edge between consecutive vertex indices of a face lies in
  exactly two faces, which traverse it once in each direction.
\<close>

theorem builder_mesh_closed:
  "\<exists>m. create_capsule_data longitudes latitudes rings depth radius profile = Inr m \<and>
     (\<forall>f \<in> set (v_indices m). \<forall>e \<in> set (face_edges f).
        edge_faces (v_indices m) (fst e) (snd e) = 2 \<and>
        edge_uses (v_indices m) (fst e, snd e) = 1 \<and>
        edge_uses (v_indices m) (snd e, fst e) = 1)"
proof -
  define c where "c = validate longitudes latitudes rings depth radius profile"
  have wf: "wf_args c" unfolding c_def by (rule wf_validate)
  from create_capsule_data_result[of longitudes latitudes rings depth radius profile]
  obtain m where m: "create_capsule_data longitudes latitudes rings depth radius profile = Inr m"
    "v_indices m = map (v_face c) (py_range 0 (len_indices c))"
    unfolding c_def by blast
  have "edge_faces (v_indices m) (fst e) (snd e) = 2 \<and>
        edge_uses (v_indices m) (fst e, snd e) = 1 \<and>
        edge_uses (v_indices m) (snd e, fst e) = 1"
    if f: "f \<in> set (v_indices m)" and e: "e \<in> set (face_edges f)" for f e
  proof -
    from f obtain k where k: "0 \<le> k" "k < len_indices c" "f = v_face c k"
      unfolding m(2) by (auto simp: set_py_range)
    have "(fst e, snd e) \<in> set (face_edges (v_face c k))" using e k(3) by simp
    from closed_core[OF wf k(1,2) this m(2)] show ?thesis .
  qed
  then show ?thesis using m(1) by (intro exI[of _ m]) blast
qed

theorem builder_mesh_closed_witness:
  "\<exists>m. create_capsule_data 4 2 0 1.0 0.5 ''FIXED'' = Inr m \<and>
     [1, 5, 6, 2] \<in> set (v_indices m) \<and> (1, 5) \<in> set (face_edges [1, 5, 6, 2]) \<and>
     edge_faces (v_indices m) 1 5 = 2 \<and>
     edge_uses (v_indices m) (1, 5) = 1 \<and> edge_uses (v_indices m) (5, 1) = 1"
proof -
  from capsule_4_2_0 obtain m where m: "create_capsule_data 4 2 0 1.0 0.5 ''FIXED'' = Inr m"
     "v_indices m = [[0, 1, 2], [0, 2, 3], [0, 3, 4], [0, 4, 1],
       [1, 5, 6, 2], [2, 6, 7, 3], [3, 7, 8, 4], [4, 8, 5, 1],
       [9, 6, 5], [9, 7, 6], [9, 8, 7], [9, 5, 8]]"
    by blast
  have mem: "[1, 5, 6, 2] \<in> set (v_indices m)" unfolding m(2) by simp
  have ed: "(1, 5) \<in> set (face_edges [1, 5, 6, 2])" by (simp add: face_edges_def)
  from builder_mesh_closed[of 4 2 0 "1.0" "0.5" "''FIXED''"] m(1) mem ed
  have "edge_faces (v_indices m) (fst (1, 5)) (snd (1, 5)) = 2 \<and>
        edge_uses (v_indices m) (fst (1, 5), snd (1, 5)) = 1 \<and>
        edge_uses (v_indices m) (snd (1, 5), fst (1, 5)) = 1"
    by fastforce
  then show ?thesis using m(1) mem ed by (intro exI[of _ m]) simp
qed

section \<open>Properties of the fitter\<close>

lemmas vec_simps = vnorm_def mean_axis0_def distance_to_axis_def align_axes_def
  rotation_matrix_3x3_def to_4x4_def

lemma py_max_eq: "py_max (x # xs) = Inr (Max (set (x # xs)))"
proof -
  have "(\<lambda>y m. if m < y then y else m) = (max :: real \<Rightarrow> real \<Rightarrow> real)"
    by (auto simp: fun_eq_iff max_def)
  then show ?thesis using Max.set_eq_fold[of x xs] by (simp del: set_simps)
qed

lemma py_min_eq: "py_min (x # xs) = Inr (Min (set (x # xs)))"
proof -
  have "(\<lambda>y m. if y < m then y else m) = (min :: real \<Rightarrow> real \<Rightarrow> real)"
    by (auto simp: fun_eq_iff min_def)
  then show ?thesis using Min.set_eq_fold[of x xs] by (simp del: set_simps)
qed

lemma py_max_nonempty: "xs \<noteq> [] \<Longrightarrow> py_max xs = Inr (Max (set xs))"
  by (cases xs) (simp_all only: py_max_eq, simp)

lemma py_min_nonempty: "xs \<noteq> [] \<Longrightarrow> py_min xs = Inr (Min (set xs))"
  by (cases xs) (simp_all only: py_min_eq, simp)

lemma fitter_returns:
  assumes "2 \<le> length points"
  shows "calculate_radius_height svd_vh0 points cylinder_axis =
     (let a = svd_vh0 (map (\<lambda>p. vsub p (mean_axis0 points)) points);
          projections = map (\<lambda>p. dot p a) points;
          mn = Min (set projections); mx = Max (set projections);
          axes = align_axes a cylinder_axis;
          x_axis = fst axes; y_axis0 = fst (snd axes); z_axis = snd (snd axes);
          y_axis = (if vnorm y_axis0 < 0.000001 then cross (0, 1, 0) z_axis else y_axis0)
      in Inr (Max (set (map (\<lambda>p. distance_to_axis p (mean_axis0 points) a) points)),
              mx - mn,
              vadd (mean_axis0 points) (smul ((mn + mx) / 2) a),
              to_4x4 (rotation_matrix_3x3 (vdiv x_axis (vnorm x_axis))
                  (vdiv y_axis (vnorm y_axis)) (vdiv z_axis (vnorm z_axis)))))"
proof -
  from assms have ne: "points \<noteq> []" by auto
  then show ?thesis using assms
    by (simp add: calculate_radius_height_def Let_def py_max_nonempty py_min_nonempty
        bind_err_def split: prod.splits)
qed

text \<open>
  Claim C6. The fitter raises the invalid-input error (\<open>ValueError\<close>) exactly when
  fewer than two points are supplied; on two or more points it raises nothing and
  returns a complete \<open>(radius, height, center, rotation)\<close> result.
\<close>

theorem fitter_invalid_input:
  "(if length points < 2
    then calculate_radius_height svd_vh0 points cylinder_axis = Inl ValueError
    else \<exists>radius height center rot.
           calculate_radius_height svd_vh0 points cylinder_axis
             = Inr (radius, height, center, rot))"
proof (cases "length points < 2")
  case True
  then show ?thesis by (simp add: calculate_radius_height_def)
next
  case False
  then have "2 \<le> length points" by simp
  from fitter_returns[OF this, of svd_vh0 cylinder_axis]
  obtain r where "calculate_radius_height svd_vh0 points cylinder_axis = Inr r"
    by (simp add: Let_def)
  then show ?thesis using False by (cases r) auto
qed

lemma vsub_line_point: "vsub p (line_point c a t) = vsub (vsub p c) (smul t a)"
  by (cases p, cases c, cases a) (simp add: line_point_def)

lemma dot_vsub_smul:
  "dot (vsub v (smul t a)) (vsub v (smul t a)) = dot v v - 2 * t * dot v a + t * t * dot a a"
  by (cases v, cases a) (simp add: algebra_simps)

lemma line_dist_sq:
  assumes "vnorm a = 1"
  shows "dot (vsub v (smul t a)) (vsub v (smul t a))
     = dot (vsub v (smul (dot v a) a)) (vsub v (smul (dot v a) a)) + (t - dot v a)\<^sup>2"
proof -
  have aa: "dot a a = 1" using assms by (simp add: vnorm_def)
  show ?thesis unfolding dot_vsub_smul aa by (simp add: power2_eq_square algebra_simps)
qed

lemma dist_to_line_least: "dist_to_line p c a \<le> vnorm (vsub p (line_point c a t))"
proof -
  have nonneg: "0 \<le> vnorm v" for v by (cases v) (simp add: vnorm_def)
  have "bdd_below (range (\<lambda>t. vnorm (vsub p (line_point c a t))))"
    using nonneg by (intro bdd_belowI[of _ 0]) blast
  then show ?thesis unfolding dist_to_line_def
    by (intro cInf_lower) simp_all
qed

text \<open>
  For a unit direction the least distance to the line is attained at the foot of
  the perpendicular from the point, and it is what \<open>distance_to_axis\<close> computes.
\<close>

lemma dist_to_line_unit:
  assumes "vnorm a = 1"
  shows "dist_to_line p c a = distance_to_axis p c a"
proof -
  let ?v = "vsub p c"
  let ?f = "\<lambda>t. vnorm (vsub p (line_point c a t))"
  have f: "?f t = vnorm (vsub ?v (smul t a))" for t by (simp only: vsub_line_point)
  have least: "?f (dot ?v a) \<le> ?f t" for t
    unfolding vsub_line_point vnorm_def using line_dist_sq[OF assms, of ?v t] by simp
  have "Inf (range ?f) = ?f (dot ?v a)"
    by (rule cInf_eq_minimum) (auto intro: least)
  then show ?thesis unfolding dist_to_line_def distance_to_axis_def Let_def f .
qed

lemma dist_to_line_perpendicular:
  assumes "vnorm a = 1"
  shows "\<exists>t. dot (vsub p (line_point c a t)) a = 0 \<and>
     vnorm (vsub p (line_point c a t)) = dist_to_line p c a"
proof -
  have aa: "dot a a = 1" using assms by (simp add: vnorm_def)
  have "dot (vsub v (smul t a)) a = dot v a - t * dot a a" for v t
    by (cases v, cases a) (simp add: algebra_simps)
  then have "dot (vsub p (line_point c a (dot (vsub p c) a))) a = 0"
    unfolding vsub_line_point aa by simp
  moreover have "vnorm (vsub p (line_point c a (dot (vsub p c) a))) = dist_to_line p c a"
    unfolding dist_to_line_unit[OF assms] distance_to_axis_def Let_def vsub_line_point ..
  ultimately show ?thesis by blast
qed

text \<open>
  Claim C4. For every point cloud of at least two points the returned radius is the
  maximum, over the input points, of the perpendicular distance to the line through
  the centroid along the principal axis: no point is farther from that line than the
  radius and some point is exactly that far. The distance is the geometric one,
  \<open>dist_to_line\<close>; the principal axis is a unit vector, as every row of \<^verbatim>\<open>vh\<close> is.
\<close>

theorem fitter_radius_is_max:
  assumes len: "2 \<le> length points"
    and a: "a = svd_vh0 (map (\<lambda>p. vsub p (mean_axis0 points)) points)"
    and unit: "vnorm a = 1"
  shows "\<exists>radius height center rot.
     calculate_radius_height svd_vh0 points cylinder_axis = Inr (radius, height, center, rot) \<and>
     radius = Max ((\<lambda>p. dist_to_line p (mean_axis0 points) a) ` set points) \<and>
     (\<forall>p \<in> set points. dist_to_line p (mean_axis0 points) a \<le> radius) \<and>
     (\<exists>p \<in> set points. dist_to_line p (mean_axis0 points) a = radius)"
proof -
  let ?D = "(\<lambda>p. dist_to_line p (mean_axis0 points) a) ` set points"
  from len have ne: "?D \<noteq> {}" by auto
  have fin: "finite ?D" by simp
  have le: "\<forall>p \<in> set points. dist_to_line p (mean_axis0 points) a \<le> Max ?D"
    using fin by (auto intro!: Max_ge)
  have "Max ?D \<in> ?D" using fin ne by (rule Max_in)
  then have ex: "\<exists>p \<in> set points. dist_to_line p (mean_axis0 points) a = Max ?D"
    by auto
  have code: "set (map (\<lambda>p. distance_to_axis p (mean_axis0 points) a) points) = ?D"
    by (simp add: dist_to_line_unit[OF unit])
  show ?thesis unfolding fitter_returns[OF len] Let_def a[symmetric] code
    using le ex by blast
qed

theorem fitter_invalid_input_witness:
  "calculate_radius_height (\<lambda>ps. (0, 0, 1)) [(0, 0, 0)] ''Z'' = Inl ValueError \<and>
   (\<exists>radius height center rot.
      calculate_radius_height (\<lambda>ps. (0, 0, 1)) [(0, 0, 0), (0, 0, 2)] ''Z''
        = Inr (radius, height, center, rot))"
  using fitter_invalid_input [of "[(0, 0, 0)]" "\<lambda>ps. (0, 0, 1)" "''Z''"]
    fitter_invalid_input [of "[(0, 0, 0), (0, 0, 2)]" "\<lambda>ps. (0, 0, 1)" "''Z''"]
  by simp

theorem fitter_radius_is_max_witness:
  "2 \<le> length [(0, 0, 0), (1, 0, 2 :: real)] \<and> vnorm (0, 0, 1) = 1 \<and>
   (\<exists>height center rot.
      calculate_radius_height (\<lambda>ps. (0, 0, 1)) [(0, 0, 0), (1, 0, 2)] ''Z''
        = Inr (1 / 2, height, center, rot)) \<and>
   mean_axis0 [(0, 0, 0), (1, 0, 2)] = (1 / 2, 0, 1) \<and>
   dist_to_line (0, 0, 0) (1 / 2, 0, 1) (0, 0, 1) \<le> 1 / 2 \<and>
   dist_to_line (1, 0, 2) (1 / 2, 0, 1) (0, 0, 1) \<le> 1 / 2 \<and>
   (dist_to_line (0, 0, 0) (1 / 2, 0, 1) (0, 0, 1) = 1 / 2 \<or>
    dist_to_line (1, 0, 2) (1 / 2, 0, 1) (0, 0, 1) = 1 / 2)"
proof -
  have u: "vnorm (0, 0, 1) = 1" by (simp add: vnorm_def)
  have m: "mean_axis0 [(0, 0, 0), (1, 0, 2)] = (1 / 2, 0, 1)" by (simp add: mean_axis0_def)
  have r: "calculate_radius_height (\<lambda>ps. (0, 0, 1)) [(0, 0, 0), (1, 0, 2)] ''Z''
     = Inr (1 / 2, 2, (1 / 2, 0, 2), [[1, 0, 0, 0], [0, 1, 0, 0], [0, 0, 1, 0], [0, 0, 0, 1]])"
    by (simp add: calculate_radius_height_def Let_def bind_err_def vec_simps real_sqrt_divide)
  from fitter_radius_is_max [of "[(0, 0, 0), (1, 0, 2)]" "(0, 0, 1)" "\<lambda>ps. (0, 0, 1)" "''Z''"] u
  have "(\<forall>p \<in> set [(0, 0, 0), (1, 0, 2)]. dist_to_line p (1 / 2, 0, 1) (0, 0, 1) \<le> 1 / 2) \<and>
     (\<exists>p \<in> set [(0, 0, 0), (1, 0, 2)]. dist_to_line p (1 / 2, 0, 1) (0, 0, 1) = 1 / 2)"
    unfolding r m by auto
  then have d: "dist_to_line (0, 0, 0) (1 / 2, 0, 1) (0, 0, 1) \<le> 1 / 2 \<and>
     dist_to_line (1, 0, 2) (1 / 2, 0, 1) (0, 0, 1) \<le> 1 / 2 \<and>
     (dist_to_line (0, 0, 0) (1 / 2, 0, 1) (0, 0, 1) = 1 / 2 \<or>
      dist_to_line (1, 0, 2) (1 / 2, 0, 1) (0, 0, 1) = 1 / 2)"
    by simp
  have "\<exists>height center rot.
      calculate_radius_height (\<lambda>ps. (0, 0, 1)) [(0, 0, 0), (1, 0, 2)] ''Z''
        = Inr (1 / 2, height, center, rot)"
    unfolding r by blast
  then show ?thesis using d u m by simp
qed

text \<open>
  Claim C5, evaluated on the points \<open>(1,0,0)\<close> and \<open>(3,0,0)\<close> with principal axis
  \<open>(1,0,0)\<close>: the returned height is 2 and the returned center is \<open>(4,0,0)\<close>, so
  the interval of the claim is \<open>[3, 5]\<close> while the first point projects to 1. With
  the opposite sign of the axis the center is the same, the interval is \<open>[-5, -3]\<close>
  and the first point projects to \<open>-1\<close>. The midpoint of the projections of the
  uncentred points is added to the centroid, which counts the centroid's own
  projection twice.
\<close>

theorem fitter_center_off_axis_range:
  "calculate_radius_height (\<lambda>ps. (1, 0, 0)) [(1, 0, 0), (3, 0, 0)] ''Z''
     = Inr (0, 2, (4, 0, 0), [[0, 0, 1, 0], [0, 1, 0, 0], [- 1, 0, 0, 0], [0, 0, 0, 1]]) \<and>
   dot (1, 0, 0) (1, 0, 0) < dot (4, 0, 0) (1, 0, 0) - 2 / 2 \<and>
   calculate_radius_height (\<lambda>ps. (- 1, 0, 0)) [(1, 0, 0), (3, 0, 0)] ''Z''
     = Inr (0, 2, (4, 0, 0), [[0, 0, - 1, 0], [0, 1, 0, 0], [1, 0, 0, 0], [0, 0, 0, 1]]) \<and>
   dot (4, 0, 0) (- 1, 0, 0) + 2 / 2 < dot (1, 0, 0) (- 1, 0, 0)"
  by (simp add: calculate_radius_height_def Let_def bind_err_def vec_simps)

text \<open>
  Claim C9, first half, fails: on two identical points the fitter raises nothing and
  reports nothing, it returns a capsule of radius 0 and height 0.
\<close>

theorem fitter_identical_points_counterexample:
  "calculate_radius_height (\<lambda>ps. (1, 0, 0)) [(0, 0, 0), (0, 0, 0)] ''Z''
     = Inr (0, 0, (0, 0, 0), [[0, 0, 1, 0], [0, 1, 0, 0], [- 1, 0, 0, 0], [0, 0, 0, 1]])"
  by (simp add: calculate_radius_height_def Let_def bind_err_def vec_simps)

lemma dot_cross_left1: "dot (cross a b) a = 0"
  by (cases a, cases b) (simp add: algebra_simps)

lemma dot_cross_left2: "dot (cross a b) b = 0"
  by (cases a, cases b) (simp add: algebra_simps)

lemma dot_commute: "dot a b = dot b a"
  by (cases a, cases b) (simp add: algebra_simps)

lemma cross_norm_sq: "dot (cross a b) (cross a b) = dot a a * dot b b - (dot a b)\<^sup>2"
  by (cases a, cases b) (simp add: algebra_simps power2_eq_square)

lemma dot_self_nonneg: "0 \<le> dot v v"
  by (cases v) simp

lemma dot_vdiv: "dot (vdiv u s) (vdiv v t) = dot u v / (s * t)"
  by (cases u, cases v) (simp add: add_divide_distrib)

lemma vnorm_unit: "vnorm v \<noteq> 0 \<Longrightarrow> vnorm (vdiv v (vnorm v)) = 1"
proof -
  assume nz: "vnorm v \<noteq> 0"
  have "vnorm v * vnorm v = dot v v"
    by (simp add: vnorm_def dot_self_nonneg)
  moreover have "dot v v \<noteq> 0" using nz by (auto simp: vnorm_def)
  ultimately have "dot (vdiv v (vnorm v)) (vdiv v (vnorm v)) = 1"
    by (simp add: dot_vdiv)
  then show ?thesis by (simp add: vnorm_def)
qed

lemma orthonormal_columnsI:
  assumes "vnorm x \<noteq> 0" "vnorm y \<noteq> 0" "vnorm z \<noteq> 0"
    and "dot x y = 0" "dot x z = 0" "dot y z = 0"
  shows "orthonormal_columns (to_4x4 (rotation_matrix_3x3
           (vdiv x (vnorm x)) (vdiv y (vnorm y)) (vdiv z (vnorm z))))"
proof -
  obtain x0 x1 x2 where x: "vdiv x (vnorm x) = (x0, x1, x2)" by (cases "vdiv x (vnorm x)")
  obtain y0 y1 y2 where y: "vdiv y (vnorm y) = (y0, y1, y2)" by (cases "vdiv y (vnorm y)")
  obtain z0 z1 z2 where z: "vdiv z (vnorm z) = (z0, z1, z2)" by (cases "vdiv z (vnorm z)")
  have cols: "mat_col (to_4x4 (rotation_matrix_3x3 (x0, x1, x2) (y0, y1, y2) (z0, z1, z2))) 0 = (x0, x1, x2)"
     "mat_col (to_4x4 (rotation_matrix_3x3 (x0, x1, x2) (y0, y1, y2) (z0, z1, z2))) 1 = (y0, y1, y2)"
     "mat_col (to_4x4 (rotation_matrix_3x3 (x0, x1, x2) (y0, y1, y2) (z0, z1, z2))) 2 = (z0, z1, z2)"
    by (simp_all add: mat_col_def to_4x4_def rotation_matrix_3x3_def)
  have "vnorm (vdiv x (vnorm x)) = 1" "vnorm (vdiv y (vnorm y)) = 1" "vnorm (vdiv z (vnorm z)) = 1"
    using assms(1-3) by (simp_all add: vnorm_unit)
  moreover have "dot (vdiv x (vnorm x)) (vdiv y (vnorm y)) = 0"
     "dot (vdiv x (vnorm x)) (vdiv z (vnorm z)) = 0"
     "dot (vdiv y (vnorm y)) (vdiv z (vnorm z)) = 0"
    using assms(4-6) by (simp_all add: dot_vdiv)
  ultimately show ?thesis
    unfolding orthonormal_columns_def x y z cols by simp
qed

lemma vnorm_cross_orth:
  assumes "dot a b = 0" "vnorm a = 1"
  shows "vnorm (cross a b) = vnorm b" "vnorm (cross b a) = vnorm b"
proof -
  have aa: "dot a a = 1" using assms(2) by (simp add: vnorm_def)
  have "dot b a = 0" using assms(1) by (simp add: dot_commute)
  then show "vnorm (cross a b) = vnorm b" "vnorm (cross b a) = vnorm b"
    using assms(1) aa by (simp_all add: vnorm_def cross_norm_sq)
qed

text \<open>
  Claim C8. For at least two points, a unit principal axis that is not near-parallel
  to the reference axis of the cross product (\<open>(0,1,0)\<close> for the hint Z, \<open>(0,0,1)\<close>
  for X and Y; near-parallel by the source's own threshold \<open>1e-6\<close>) and each axis
  hint, the columns of the returned rotation matrix have unit length and are
  pairwise orthogonal.
\<close>

theorem fitter_rotation_orthonormal:
  assumes len: "2 \<le> length points"
    and ax: "cylinder_axis = ''X'' \<or> cylinder_axis = ''Y'' \<or> cylinder_axis = ''Z''"
    and a: "a = svd_vh0 (map (\<lambda>p. vsub p (mean_axis0 points)) points)"
    and unit: "vnorm a = 1"
    and ref: "0.000001 \<le> vnorm (cross (if cylinder_axis = ''Z'' then (0, 1, 0) else (0, 0, 1)) a)"
  shows "\<exists>radius height center rot.
     calculate_radius_height svd_vh0 points cylinder_axis = Inr (radius, height, center, rot) \<and>
     orthonormal_columns rot"
proof -
  let ?axes = "align_axes a cylinder_axis"
  let ?x = "fst ?axes" and ?y0 = "fst (snd ?axes)" and ?z = "snd (snd ?axes)"
  let ?y = "if vnorm ?y0 < 0.000001 then cross (0, 1, 0) ?z else ?y0"
  have main: "vnorm ?x \<noteq> 0 \<and> vnorm ?y \<noteq> 0 \<and> vnorm ?z \<noteq> 0 \<and>
      dot ?x ?y = 0 \<and> dot ?x ?z = 0 \<and> dot ?y ?z = 0"
  proof -
    consider (X) "cylinder_axis = ''X''" | (Y) "cylinder_axis = ''Y''" | (Z) "cylinder_axis = ''Z''"
      using ax by blast
    then show ?thesis
    proof cases
      case X
      let ?k = "cross (0, 0, 1) a"
      have y: "0.000001 \<le> vnorm ?k" using ref X by simp
      have orth: "dot a ?k = 0" by (simp add: dot_commute[of a] dot_cross_left2)
      have "vnorm (cross a ?k) = vnorm ?k" using vnorm_cross_orth(1)[OF orth unit] .
      then show ?thesis using y unit X
        by (simp add: align_axes_def Let_def orth dot_cross_left1 dot_cross_left2
            dot_commute[of _ "cross a ?k"] del: cross.simps)
    next
      case Y
      let ?k = "cross (0, 0, 1) a"
      have x: "0.000001 \<le> vnorm ?k" using ref Y by simp
      have orth: "dot a ?k = 0" by (simp add: dot_commute[of a] dot_cross_left2)
      have "vnorm (cross ?k a) = vnorm ?k" using vnorm_cross_orth(2)[OF orth unit] .
      then show ?thesis using x unit Y
        by (simp add: align_axes_def Let_def orth dot_cross_left1 dot_cross_left2
            dot_commute[of _ "cross ?k a"] del: cross.simps)
    next
      case Z
      let ?k = "cross (0, 1, 0) a"
      have x: "0.000001 \<le> vnorm ?k" using ref Z by simp
      have orth: "dot a ?k = 0" by (simp add: dot_commute[of a] dot_cross_left2)
      have "vnorm (cross a ?k) = vnorm ?k" using vnorm_cross_orth(1)[OF orth unit] .
      then show ?thesis using x unit Z
        by (simp add: align_axes_def Let_def orth dot_cross_left1 dot_cross_left2
            dot_commute[of _ "cross a ?k"] dot_commute[of ?k a] del: cross.simps)
    qed
  qed
  have "orthonormal_columns (to_4x4 (rotation_matrix_3x3
           (vdiv ?x (vnorm ?x)) (vdiv ?y (vnorm ?y)) (vdiv ?z (vnorm ?z))))"
    using main by (intro orthonormal_columnsI) simp_all
  then show ?thesis
    unfolding fitter_returns[OF len] Let_def a by blast
qed

theorem fitter_rotation_orthonormal_witness:
  "2 \<le> length [(0, 0, 0), (2, 0, 0 :: real)] \<and> vnorm (1, 0, 0) = 1 \<and>
   0.000001 \<le> vnorm (cross (0, 1, 0) (1, 0, 0)) \<and>
   (\<exists>radius height center rot.
      calculate_radius_height (\<lambda>ps. (1, 0, 0)) [(0, 0, 0), (2, 0, 0)] ''Z''
        = Inr (radius, height, center, rot) \<and>
      orthonormal_columns rot)"
  using fitter_rotation_orthonormal
    [of "[(0, 0, 0), (2, 0, 0)]" "''Z''" "(1, 0, 0)" "\<lambda>ps. (1, 0, 0)"]
  by (simp add: vnorm_def)

lemma distance_to_axis_centre: "distance_to_axis p p a = 0"
  by (cases p, cases a) (simp add: distance_to_axis_def vnorm_def)

lemma mean_axis0_same: "mean_axis0 [p, p] = p"
  by (cases p) (simp add: mean_axis0_def)

lemma smul_smul: "smul a (smul b v) = smul (a * b) v"
  by (cases v) simp

lemma dot_smul: "dot (smul a u) (smul b v) = a * b * dot u v"
  by (cases u, cases v) (simp add: algebra_simps)

lemma vsub_self: "vsub v v = (0, 0, 0)"
  by (cases v) simp

lemma distance_to_axis_on_line:
  assumes "n \<noteq> 0" "n * n = dot w w" "s * s = 1"
    and "vsub p c = smul k w"
  shows "distance_to_axis p c (smul (s / n) w) = 0"
proof -
  have "k * (s / n) * dot w w * (s / n) = k * (s * s) * ((n * n) / (n * n))"
    unfolding assms(2)[symmetric] by simp
  then have key: "k * (s / n) * dot w w * (s / n) = k"
    using assms(1,3) by simp
  have "smul (dot (smul k w) (smul (s / n) w)) (smul (s / n) w) = smul k w"
    unfolding smul_smul dot_smul key ..
  then show ?thesis
    unfolding distance_to_axis_def Let_def assms(4)
    by (simp add: vsub_self vnorm_def)
qed

lemma dot_self_pos: "v \<noteq> (0, 0, 0) \<Longrightarrow> 0 < dot v v"
proof -
  assume ne: "v \<noteq> (0, 0, 0)"
  obtain a b c where v: "v = (a, b, c)" by (cases v)
  show ?thesis
  proof (cases "c = 0")
    case True
    then show ?thesis using ne v by (auto simp: sum_squares_gt_zero_iff)
  next
    case False
    then have "0 < c * c" by (auto simp: zero_less_mult_iff)
    moreover have "0 \<le> a * a + b * b" by simp
    ultimately show ?thesis unfolding v by (simp add: add_nonneg_pos)
  qed
qed

lemma dot_diff_left: "dot p a - dot q a = dot (vsub p q) a"
  by (cases p, cases q, cases a) (simp add: algebra_simps)

lemma dot_smul_right: "dot u (smul k v) = k * dot u v"
  by (cases u, cases v) (simp add: algebra_simps)

lemma dot_self_zero: "dot v v = 0 \<Longrightarrow> v = (0, 0, 0)"
  using dot_self_pos[of v] by auto

lemma triple_product: "vsub (smul (dot w w) a) (smul (dot w a) w) = cross w (cross a w)"
  by (cases w, cases a) (simp add: algebra_simps)

lemma cross_zero_right: "cross w (0, 0, 0) = (0, 0, 0)"
  by (cases w) simp

lemma vsub_zero_eq: "vsub u v = (0, 0, 0) \<Longrightarrow> u = v"
  by (cases u, cases v) simp

lemma sum_sq_proj_two:
  "sum_sq_proj [smul (1 / 2) w, smul (- 1 / 2) w] v = (dot w v)\<^sup>2 / 2"
  by (cases w, cases v) (simp add: sum_sq_proj_def power2_eq_square algebra_simps)

text \<open>
  The first right singular vector of the two centred points \<open>w / 2\<close> and \<open>- w / 2\<close>
  is the unit vector along \<open>w\<close>, up to sign.
\<close>

lemma first_right_singular_two:
  assumes fs: "first_right_singular [smul (1 / 2) w, smul (- 1 / 2) w] a"
    and w: "w \<noteq> (0, 0, 0)"
  shows "\<exists>s. (s = 1 \<or> s = - 1) \<and> a = smul (s / vnorm w) w"
proof -
  let ?n = "vnorm w"
  have ww: "0 < dot w w" using w by (rule dot_self_pos)
  then have npos: "0 < ?n" by (simp add: vnorm_def)
  have nn: "?n * ?n = dot w w" using ww by (simp add: vnorm_def)
  have aa: "dot a a = 1" using fs by (simp add: first_right_singular_def vnorm_def)
  let ?u = "smul (1 / ?n) w"
  have "dot ?u ?u = (1 / ?n) * (1 / ?n) * dot w w" by (rule dot_smul)
  also have "\<dots> = 1" using npos nn[symmetric] by simp
  finally have uu: "vnorm ?u = 1" by (simp add: vnorm_def)
  have wu: "dot w ?u = ?n"
    unfolding dot_smul_right using npos nn[symmetric] by simp
  from fs uu have "sum_sq_proj [smul (1 / 2) w, smul (- 1 / 2) w] ?u
      \<le> sum_sq_proj [smul (1 / 2) w, smul (- 1 / 2) w] a"
    unfolding first_right_singular_def by blast
  then have ge: "?n\<^sup>2 \<le> (dot w a)\<^sup>2" unfolding sum_sq_proj_two wu by simp
  have "0 \<le> dot (cross a w) (cross a w)" by (rule dot_self_nonneg)
  then have le: "(dot a w)\<^sup>2 \<le> dot w w" unfolding cross_norm_sq aa by simp
  have n2: "?n\<^sup>2 = dot w w" using nn by (simp add: power2_eq_square)
  have sq: "(dot w a)\<^sup>2 = ?n\<^sup>2" using ge le n2 by (simp add: dot_commute[of a w])
  then have "dot (cross a w) (cross a w) = 0"
    unfolding cross_norm_sq aa n2 by (simp add: dot_commute[of a w])
  then have "cross a w = (0, 0, 0)" by (rule dot_self_zero)
  then have "vsub (smul (dot w w) a) (smul (dot w a) w) = (0, 0, 0)"
    unfolding triple_product by (simp only: cross_zero_right)
  then have eq: "smul (dot w w) a = smul (dot w a) w" by (rule vsub_zero_eq)
  have "a = smul (1 / dot w w) (smul (dot w w) a)"
    unfolding smul_smul using ww by (cases a) simp
  then have a: "a = smul (dot w a / dot w w) w" unfolding eq smul_smul by simp
  from sq have "dot w a = ?n \<or> dot w a = - ?n" by (simp add: power2_eq_iff)
  then show ?thesis
  proof
    assume "dot w a = ?n"
    then have "dot w a / dot w w = 1 / ?n" using npos nn[symmetric] by simp
    then have "a = smul (1 / ?n) w" using a by simp
    then show ?thesis by blast
  next
    assume "dot w a = - ?n"
    then have "dot w a / dot w w = - 1 / ?n" using npos nn[symmetric] by simp
    then have "a = smul (- 1 / ?n) w" using a by simp
    then show ?thesis by blast
  qed
qed

lemma first_right_singular_example:
  "first_right_singular [(0, 0, 3 / 2), (0, 0, - 3 / 2)] (0, 0, 1)"
  unfolding first_right_singular_def
proof (intro conjI allI impI)
  show "vnorm (0, 0, 1) = 1" by (simp add: vnorm_def)
next
  fix v :: vec3
  assume unit: "vnorm v = 1"
  obtain x y z where v: "v = (x, y, z)" by (cases v)
  from unit have "x * x + y * y + z * z = 1" unfolding v by (simp add: vnorm_def)
  moreover have "0 \<le> x * x" "0 \<le> y * y" by simp_all
  ultimately have "z * z \<le> 1" by linarith
  then show "sum_sq_proj [(0, 0, 3 / 2), (0, 0, - 3 / 2)] v
      \<le> sum_sq_proj [(0, 0, 3 / 2), (0, 0, - 3 / 2)] (0, 0, 1)"
    unfolding v by (simp add: sum_sq_proj_def power2_eq_square)
qed

text \<open>
  Claim C9 as amended. On two identical points the fitter raises nothing and reports
  nothing: it returns a result of radius 0 and height 0. On two distinct points it
  returns a radius of approximately 0, over the reals exactly 0, and as height the
  Euclidean distance between the two points; the principal axis is the first right
  singular vector of the centred points, as the decomposition guarantees.
\<close>

theorem fitter_two_points:
  "(\<exists>center rot.
      calculate_radius_height svd_vh0 [p, p] cylinder_axis = Inr (0, 0, center, rot)) \<and>
   (p \<noteq> q \<and>
    first_right_singular (map (\<lambda>x. vsub x (mean_axis0 [p, q])) [p, q])
      (svd_vh0 (map (\<lambda>x. vsub x (mean_axis0 [p, q])) [p, q]))
    \<longrightarrow> (\<exists>center rot.
      calculate_radius_height svd_vh0 [p, q] cylinder_axis
        = Inr (0, vnorm (vsub p q), center, rot)))"
proof (intro conjI impI)
  have len: "2 \<le> length [p, p]" by simp
  show "\<exists>center rot.
      calculate_radius_height svd_vh0 [p, p] cylinder_axis = Inr (0, 0, center, rot)"
    unfolding fitter_returns[OF len] Let_def
    by (simp add: mean_axis0_same distance_to_axis_centre del: split_paired_Ex)
next
  assume h: "p \<noteq> q \<and>
    first_right_singular (map (\<lambda>x. vsub x (mean_axis0 [p, q])) [p, q])
      (svd_vh0 (map (\<lambda>x. vsub x (mean_axis0 [p, q])) [p, q]))"
  let ?w = "vsub p q" and ?n = "vnorm (vsub p q)"
  obtain p0 p1 p2 where p: "p = (p0, p1, p2)" by (cases p)
  obtain q0 q1 q2 where q: "q = (q0, q1, q2)" by (cases q)
  have w0: "?w \<noteq> (0, 0, 0)" using h unfolding p q by auto
  then have ww: "0 < dot ?w ?w" by (rule dot_self_pos)
  then have n0: "?n \<noteq> 0" by (simp add: vnorm_def)
  have nn: "?n * ?n = dot ?w ?w" using ww by (simp add: vnorm_def)
  have vp: "vsub p (mean_axis0 [p, q]) = smul (1 / 2) ?w"
    unfolding p q by (simp add: mean_axis0_def field_simps)
  have vq: "vsub q (mean_axis0 [p, q]) = smul (- 1 / 2) ?w"
    unfolding p q by (simp add: mean_axis0_def field_simps)
  have rows: "map (\<lambda>x. vsub x (mean_axis0 [p, q])) [p, q] = [smul (1 / 2) ?w, smul (- 1 / 2) ?w]"
    using vp vq by simp
  from h have "first_right_singular [smul (1 / 2) ?w, smul (- 1 / 2) ?w]
      (svd_vh0 [smul (1 / 2) ?w, smul (- 1 / 2) ?w])"
    unfolding rows by simp
  from first_right_singular_two[OF this w0]
  obtain s where s: "s = 1 \<or> s = - 1"
    and a: "svd_vh0 [smul (1 / 2) ?w, smul (- 1 / 2) ?w] = smul (s / ?n) ?w"
    by blast
  let ?a = "smul (s / ?n) ?w"
  have ss: "s * s = 1" using s by auto
  have dp: "distance_to_axis p (mean_axis0 [p, q]) ?a = 0"
    by (rule distance_to_axis_on_line[OF n0 nn ss vp])
  have dq: "distance_to_axis q (mean_axis0 [p, q]) ?a = 0"
    by (rule distance_to_axis_on_line[OF n0 nn ss vq])
  have "dot p ?a - dot q ?a = dot ?w ?a" by (rule dot_diff_left)
  also have "\<dots> = (s / ?n) * dot ?w ?w" by (rule dot_smul_right)
  also have "\<dots> = s * ?n" using n0 nn[symmetric] by simp
  finally have diff: "dot p ?a - dot q ?a = s * ?n" .
  have npos: "0 < ?n" using ww by (simp add: vnorm_def)
  have height: "Max {dot p ?a, dot q ?a} - Min {dot p ?a, dot q ?a} = ?n"
  proof (cases "s = 1")
    case True
    then have "dot q ?a < dot p ?a" using diff npos by simp
    then show ?thesis using diff True by (simp add: max_def min_def)
  next
    case False
    then have s': "s = - 1" using s by auto
    then have "dot p ?a < dot q ?a" using diff npos by simp
    then show ?thesis using diff s' by (simp add: max_def min_def)
  qed
  have len: "2 \<le> length [p, q]" by simp
  show "\<exists>center rot.
      calculate_radius_height svd_vh0 [p, q] cylinder_axis
        = Inr (0, vnorm (vsub p q), center, rot)"
    unfolding fitter_returns[OF len] Let_def rows a
    using dp dq height by (simp del: split_paired_Ex)
qed

theorem fitter_two_points_witness:
  "(\<exists>center rot.
      calculate_radius_height (\<lambda>ps. (0, 0, 1)) [(0, 0, 3), (0, 0, 3)] ''Z''
        = Inr (0, 0, center, rot)) \<and>
   (0, 0, 3) \<noteq> (0, 0, 0 :: real) \<and>
   first_right_singular [(0, 0, 3 / 2), (0, 0, - 3 / 2)] (0, 0, 1) \<and>
   (\<exists>center rot.
      calculate_radius_height (\<lambda>ps. (0, 0, 1)) [(0, 0, 3), (0, 0, 0)] ''Z''
        = Inr (0, 3, center, rot))"
  using fitter_two_points
    [of "\<lambda>ps. (0, 0, 1)" "(0, 0, 3)" "''Z''" "(0, 0, 0)"]
    first_right_singular_example
  by (simp add: vnorm_def mean_axis0_def)

end
